theory Spec2Isabelle
  imports Main "HOL-Library.Word" "HOL-Library.AList"
begin

section \<open>The glTF to GLB converter of src/index.js\<close>

text \<open>
  The converter reads a parsed glTF document, collects the external files its buffers and
  images name into one 4-byte aligned byte region, rewrites the document's references and
  frames both as a GLB container. The embedding follows \<^verbatim>\<open>convertGLTFToGLB\<close>,
  \<^verbatim>\<open>createGLB\<close> and \<^verbatim>\<open>getMimeType\<close> of class
  \<^verbatim>\<open>GLTFToGLBConverter\<close>.
\<close>

subsection \<open>JSON values as JavaScript sees them\<close>

text \<open>
  A document is what \<^verbatim>\<open>JSON.parse\<close> returns: null, a boolean, a number, a string,
  an array or an object. An object is the list of its own properties in property order.
  Numbers are the integers (the converter only ever compares and adds byte counts and
  indices; JavaScript's doubles agree with \<^typ>\<open>int\<close> below \<open>2 ^ 53\<close>).
  Strings are byte strings (UTF-8).
\<close>

type_synonym byte = "8 word"

datatype json =
    JNull
  | JBool bool
  | JNum int
  | JStr string
  | JArr "json list"
  | JObj "(string \<times> json) list"

text \<open>
  What the source can throw: a \<^verbatim>\<open>TypeError\<close> (a property of null or undefined, a
  call of something that is no function, a loop over something not iterable, a property
  created on a primitive in strict mode), the error of \<^verbatim>\<open>fs.readFileSync\<close> on a
  path that exists and cannot be read as a file, and the \<^verbatim>\<open>RangeError\<close> of
  \<^verbatim>\<open>writeUInt32LE\<close>. \<open>Unmodelled\<close> marks the places where the embedding does not
  follow JavaScript: the coercion of an object to a primitive, the walk over an array-like
  object, and a sum of numbers outside the range in which doubles add as integers do.
\<close>

datatype error = TypeError | ReadError | RangeError | Unmodelled

text \<open>The libraries of Node the converter calls, taken as parameters.\<close>

record node =
  stringify :: "json \<Rightarrow> byte list"  \<comment> \<open>\<^verbatim>\<open>Buffer.from(JSON.stringify(v), 'utf8')\<close>\<close>
  extname :: "string \<Rightarrow> string"  \<comment> \<open>\<^verbatim>\<open>path.extname\<close>\<close>
  readFile :: "string \<Rightarrow> (error + byte list) option"
    \<comment> \<open>\<open>None\<close>: \<^verbatim>\<open>fs.existsSync(path.join(inputFolder, uri))\<close> is false;
        otherwise what \<^verbatim>\<open>fs.readFileSync\<close> does there\<close>

text \<open>JavaScript's truthiness; \<open>None\<close> is \<^verbatim>\<open>undefined\<close>.\<close>

fun truthy :: "json \<Rightarrow> bool" where
  "truthy JNull = False"
| "truthy (JBool b) = b"
| "truthy (JNum n) = (n \<noteq> 0)"
| "truthy (JStr s) = (s \<noteq> [])"
| "truthy (JArr xs) = True"
| "truthy (JObj kvs) = True"

fun truthy_opt :: "json option \<Rightarrow> bool" where
  "truthy_opt None = False"
| "truthy_opt (Some v) = truthy v"

text \<open>
  Reading a property \<^verbatim>\<open>v.name\<close> for the names the converter reads on documents and
  entries (\<^verbatim>\<open>buffers\<close>, \<^verbatim>\<open>bufferViews\<close>, \<^verbatim>\<open>images\<close>, \<^verbatim>\<open>asset\<close>,
  \<^verbatim>\<open>uri\<close>, \<^verbatim>\<open>buffer\<close>, \<^verbatim>\<open>byteOffset\<close>): none of them is inherited from a
  prototype, so only an object has them, and null throws.
\<close>

fun get_prop :: "json \<Rightarrow> string \<Rightarrow> error + json option" where
  "get_prop JNull name = Inl TypeError"
| "get_prop (JObj kvs) name = Inr (map_of kvs name)"
| "get_prop v name = Inr None"

text \<open>
  Assignment \<^verbatim>\<open>v.name = x\<close> for the names the converter assigns (none is an array
  index or \<^verbatim>\<open>length\<close>). On an object it keeps the position of an existing property
  and appends a new one (\<^const>\<open>AList.update\<close>). On an array it creates a property that
  is no element, which neither the converter nor \<^verbatim>\<open>JSON.stringify\<close> reads again. The
  file is an ES module, so strict: on null, a boolean, a number or a string it throws.
  \<^verbatim>\<open>delete o.name\<close> is \<^const>\<open>AList.delete\<close>.
\<close>

fun assign_prop :: "json \<Rightarrow> string \<Rightarrow> json \<Rightarrow> error + json" where
  "assign_prop (JObj kvs) name x = Inr (JObj (AList.update name x kvs))"
| "assign_prop (JArr xs) name x = Inr (JArr xs)"
| "assign_prop v name x = Inl TypeError"

fun delete_prop :: "json \<Rightarrow> string \<Rightarrow> json" where
  "delete_prop (JObj kvs) name = JObj (AList.delete name kvs)"
| "delete_prop v name = v"

subsection \<open>createGLB\<close>

text \<open>The 4-byte padding both functions compute: \<^verbatim>\<open>(4 - (n % 4)) % 4\<close>.\<close>

definition padding4 :: "nat \<Rightarrow> nat" where
  "padding4 n = (4 - n mod 4) mod 4"

text \<open>
  \<^verbatim>\<open>buf.writeUInt32LE(value, offset)\<close>: four bytes, least significant first; a value
  above \<open>2 ^ 32 - 1\<close> or an offset that leaves no room for four bytes throws.
\<close>

definition writeUInt32LE :: "byte list \<Rightarrow> nat \<Rightarrow> nat \<Rightarrow> error + byte list" where
  "writeUInt32LE buf v off =
     (if v < 2 ^ 32 \<and> off + 4 \<le> length buf
      then Inr (buf[off := of_nat v,
                    off + 1 := of_nat (v div 256),
                    off + 2 := of_nat (v div 65536),
                    off + 3 := of_nat (v div 16777216)])
      else Inl RangeError)"

text \<open>Reading the field back, as a consumer of the container does.\<close>

definition readUInt32LE :: "byte list \<Rightarrow> nat \<Rightarrow> nat" where
  "readUInt32LE buf off =
     unat (buf ! off) + 256 * unat (buf ! (off + 1)) + 65536 * unat (buf ! (off + 2))
       + 16777216 * unat (buf ! (off + 3))"

text \<open>
  Lines 156 to 161: the deep copy of the document, which is the document again, and the
  \<^verbatim>\<open>asset\<close> it gets when \<^verbatim>\<open>!cleanGltf.asset\<close>.
\<close>

definition default_asset :: json where
  "default_asset = JObj [(''version'', JStr ''2.0'')]"

definition cleanGltf :: "json \<Rightarrow> error + json" where
  "cleanGltf gltfData =
     (case get_prop gltfData ''asset'' of Inl e \<Rightarrow> Inl e
      | Inr asset \<Rightarrow>
          if \<not> truthy_opt asset then assign_prop gltfData ''asset'' default_asset
          else Inr gltfData)"

text \<open>The three buffers \<^verbatim>\<open>createGLB\<close> fills with \<^verbatim>\<open>writeUInt32LE\<close>.\<close>

definition glb_header :: "nat \<Rightarrow> error + byte list" where
  "glb_header totalLength =
     (case writeUInt32LE (replicate 12 0) 0x46546C67 0 of
        Inl e \<Rightarrow> Inl e
      | Inr h1 \<Rightarrow>
          (case writeUInt32LE h1 2 4 of
             Inl e \<Rightarrow> Inl e
           | Inr h2 \<Rightarrow> writeUInt32LE h2 totalLength 8))"

definition chunk_header :: "nat \<Rightarrow> nat \<Rightarrow> error + byte list" where
  "chunk_header chunkLength chunkType =
     (case writeUInt32LE (replicate 8 0) chunkLength 0 of
        Inl e \<Rightarrow> Inl e
      | Inr h1 \<Rightarrow> writeUInt32LE h1 chunkType 4)"

definition createGLB :: "node \<Rightarrow> json \<Rightarrow> byte list \<Rightarrow> error + byte list" where
  "createGLB env gltfData binaryBuffer =
     (case cleanGltf gltfData of
        Inl e \<Rightarrow> Inl e
      | Inr clean \<Rightarrow>
      let gltfBuffer = stringify env clean;
          jsonLength = length gltfBuffer;
          jsonPadding = padding4 jsonLength;
          jsonChunkLength = jsonLength + jsonPadding;
          paddedJsonBuffer = gltfBuffer @ replicate jsonPadding 0x20;
          binaryLength = length binaryBuffer;
          binaryPadding = padding4 binaryLength;
          binaryChunkLength = binaryLength + binaryPadding;
          paddedBinaryBuffer = binaryBuffer @ replicate binaryPadding 0;
          totalLength = 12 + 8 + jsonChunkLength
            + (if binaryChunkLength > 0 then 8 + binaryChunkLength else 0)
      in (case glb_header totalLength of
            Inl e \<Rightarrow> Inl e
          | Inr header \<Rightarrow>
              (case chunk_header jsonChunkLength 0x4E4F534A of
                 Inl e \<Rightarrow> Inl e
               | Inr jsonChunkHeader \<Rightarrow>
                   if binaryChunkLength > 0
                   then (case chunk_header binaryChunkLength 0x004E4942 of
                           Inl e \<Rightarrow> Inl e
                         | Inr binaryChunkHeader \<Rightarrow>
                             Inr (header @ jsonChunkHeader @ paddedJsonBuffer
                                    @ binaryChunkHeader @ paddedBinaryBuffer))
                   else Inr (header @ jsonChunkHeader @ paddedJsonBuffer))))"

subsection \<open>getMimeType\<close>

definition to_lower :: "char \<Rightarrow> char" where
  "to_lower c =
     (if of_char CHR ''A'' \<le> (of_char c :: nat) \<and> (of_char c :: nat) \<le> of_char CHR ''Z''
      then char_of (of_char c + (32 :: nat)) else c)"

definition mimeTypes :: "(string \<times> string) list" where
  "mimeTypes =
     [(''.jpg'', ''image/jpeg''),
      (''.jpeg'', ''image/jpeg''),
      (''.png'', ''image/png''),
      (''.gif'', ''image/gif''),
      (''.bmp'', ''image/bmp''),
      (''.webp'', ''image/webp'')]"

text \<open>
  \<^verbatim>\<open>mimeTypes[extension.toLowerCase()] || 'application/octet-stream'\<close>. The argument is a
  result of \<^verbatim>\<open>path.extname\<close>, which is empty or starts with a dot, so the lookup
  never meets a name inherited from \<^verbatim>\<open>Object.prototype\<close>; a character outside ASCII
  never lower-cases to a key of the table.
\<close>

definition getMimeType :: "string \<Rightarrow> string" where
  "getMimeType extension =
     (case map_of mimeTypes (map to_lower extension) of
        Some mimeType \<Rightarrow> mimeType
      | None \<Rightarrow> ''application/octet-stream'')"

subsection \<open>convertGLTFToGLB: collecting buffers\<close>

text \<open>
  \<^verbatim>\<open>binaryChunks\<close> holds what was pushed, in order. The constructor remembers which
  of the two kinds of push made the entry (the bytes of a file, or the zero bytes after
  it); \<^verbatim>\<open>Buffer.concat\<close> sees the bytes only.
\<close>

datatype chunk = FileData "byte list" | Padding "byte list"

fun chunk_bytes :: "chunk \<Rightarrow> byte list" where
  "chunk_bytes (FileData bs) = bs"
| "chunk_bytes (Padding bs) = bs"

definition Buffer_concat :: "chunk list \<Rightarrow> byte list" where
  "Buffer_concat chunks = concat (map chunk_bytes chunks)"

text \<open>The variables the two loops share: the copied document's properties, the chunks, the running total.\<close>

record collector =
  modifiedGltf :: "(string \<times> json) list"
  binaryChunks :: "chunk list"
  totalSize :: nat

text \<open>
  The guard \<^verbatim>\<open>x.uri && !x.uri.startsWith('data:')\<close> of both loops: \<open>Some uri\<close> when
  it holds. A truthy \<^verbatim>\<open>uri\<close> that is no string has no \<^verbatim>\<open>startsWith\<close> to call.
\<close>

definition external_uri :: "json \<Rightarrow> error + string option" where
  "external_uri entry =
     (case get_prop entry ''uri'' of Inl e \<Rightarrow> Inl e
      | Inr None \<Rightarrow> Inr None
      | Inr (Some u) \<Rightarrow>
          if \<not> truthy u then Inr None
          else (case u of
                  JStr s \<Rightarrow> if take 5 s = ''data:'' then Inr None else Inr (Some s)
                | _ \<Rightarrow> Inl TypeError))"

text \<open>Decimal digits of a byte count, for \<^verbatim>\<open>+\<close> on a string.\<close>

fun decimal :: "nat \<Rightarrow> string" where
  "decimal n =
     (if n < 10 then [char_of (48 + n)]
      else decimal (n div 10) @ [char_of (48 + n mod 10)])"

declare decimal.simps [simp del]

text \<open>
  JavaScript's numbers are doubles. Every integer from \<open>- 2 ^ 53\<close> to \<open>2 ^ 53\<close> is a
  double, and the sum of two of them is their integer sum when it lies in that range
  again; outside it the sum is rounded, which the embedding does not follow.
\<close>

definition exact :: "int \<Rightarrow> bool" where
  "exact x \<longleftrightarrow> - (2 ^ 53) \<le> x \<and> x \<le> 2 ^ 53"

definition number_sum :: "int \<Rightarrow> nat \<Rightarrow> error + json" where
  "number_sum a start =
     (if exact a \<and> exact (int start) \<and> exact (a + int start)
      then Inr (JNum (a + int start))
      else Inl Unmodelled)"

text \<open>
  \<^verbatim>\<open>(bufferView.byteOffset || 0) + totalSize\<close>: a missing or falsy offset counts as 0,
  \<^verbatim>\<open>true\<close> as 1, and a string is concatenated with the digits of the total (the
  digits are all of \<^verbatim>\<open>String(totalSize)\<close> for a total in the exact range).
\<close>

fun add_offset :: "json option \<Rightarrow> nat \<Rightarrow> error + json" where
  "add_offset None start = number_sum 0 start"
| "add_offset (Some (JNum n)) start = number_sum (if n \<noteq> 0 then n else 0) start"
| "add_offset (Some JNull) start = number_sum 0 start"
| "add_offset (Some (JBool b)) start = number_sum (if b then 1 else 0) start"
| "add_offset (Some (JStr s)) start =
     (if s \<noteq> []
      then (if exact (int start) then Inr (JStr (s @ decimal start)) else Inl Unmodelled)
      else number_sum 0 start)"
| "add_offset (Some (JArr xs)) start = Inl Unmodelled"
| "add_offset (Some (JObj kvs)) start = Inl Unmodelled"

text \<open>Lines 65 to 68, for one element of \<^verbatim>\<open>modifiedGltf.bufferViews\<close>.\<close>

definition patch_view :: "nat \<Rightarrow> nat \<Rightarrow> json \<Rightarrow> error + json" where
  "patch_view i start bufferView =
     (case get_prop bufferView ''buffer'' of Inl e \<Rightarrow> Inl e
      | Inr b \<Rightarrow>
          if b = Some (JNum (int i)) then
            (case get_prop bufferView ''byteOffset'' of Inl e \<Rightarrow> Inl e
             | Inr off \<Rightarrow>
                 (case add_offset off start of Inl e \<Rightarrow> Inl e
                  | Inr byteOffset \<Rightarrow>
                      (case assign_prop bufferView ''byteOffset'' byteOffset of
                         Inl e \<Rightarrow> Inl e
                       | Inr bufferView' \<Rightarrow> assign_prop bufferView' ''buffer'' (JNum 0))))
          else Inr bufferView)"

fun map_err :: "('a \<Rightarrow> error + 'b) \<Rightarrow> 'a list \<Rightarrow> error + 'b list" where
  "map_err f [] = Inr []"
| "map_err f (x # xs) =
     (case f x of Inl e \<Rightarrow> Inl e
      | Inr y \<Rightarrow> (case map_err f xs of Inl e \<Rightarrow> Inl e | Inr ys \<Rightarrow> Inr (y # ys)))"

text \<open>
  Lines 63 to 70. \<^verbatim>\<open>for ... of\<close> walks an array; a string is iterable too, and none
  of its characters has a \<^verbatim>\<open>buffer\<close>; anything else truthy is not iterable.
\<close>

definition patch_views :: "nat \<Rightarrow> nat \<Rightarrow> (string \<times> json) list \<Rightarrow> error + (string \<times> json) list" where
  "patch_views i start doc =
     (case map_of doc ''bufferViews'' of
        None \<Rightarrow> Inr doc
      | Some v \<Rightarrow>
          if \<not> truthy v then Inr doc
          else (case v of
                  JArr views \<Rightarrow>
                    (case map_err (patch_view i start) views of Inl e \<Rightarrow> Inl e
                     | Inr views' \<Rightarrow> Inr (AList.update ''bufferViews'' (JArr views') doc))
                | JStr s \<Rightarrow> Inr doc
                | _ \<Rightarrow> Inl TypeError))"

text \<open>
  Lines 72 to 78 and 120 to 127: the total grows by the file's length, then by the padding
  that brings it to a multiple of 4, pushed as zero bytes when there is any.
\<close>

definition advance :: "nat \<Rightarrow> collector \<Rightarrow> collector" where
  "advance n st =
     (let grown = totalSize st + n;
          padding = padding4 grown
      in if padding > 0
         then st\<lparr>binaryChunks := binaryChunks st @ [Padding (replicate padding 0)],
                 totalSize := grown + padding\<rparr>
         else st\<lparr>totalSize := grown\<rparr>)"

text \<open>Lines 55 to 83, the body of the loop over \<^verbatim>\<open>modifiedGltf.buffers\<close>.\<close>

definition process_buffer :: "node \<Rightarrow> nat \<Rightarrow> json \<Rightarrow> collector \<Rightarrow> error + json \<times> collector" where
  "process_buffer env i buffer st =
     (case external_uri buffer of Inl e \<Rightarrow> Inl e
      | Inr None \<Rightarrow> Inr (buffer, st)
      | Inr (Some uri) \<Rightarrow>
          (case readFile env uri of
             None \<Rightarrow> Inr (buffer, st)
           | Some (Inl e) \<Rightarrow> Inl e
           | Some (Inr bufferData) \<Rightarrow>
               let st1 = st\<lparr>binaryChunks := binaryChunks st @ [FileData bufferData]\<rparr>
               in (case patch_views i (totalSize st1) (modifiedGltf st1) of
                     Inl e \<Rightarrow> Inl e
                   | Inr doc \<Rightarrow>
                       Inr (delete_prop buffer ''uri'',
                            advance (length bufferData) (st1\<lparr>modifiedGltf := doc\<rparr>)))))"

text \<open>
  The loop over the indices of the array: the entries still to visit, with the index of
  the first. The entries it returns are the array after the loop.
\<close>

fun buffers_loop :: "node \<Rightarrow> nat \<Rightarrow> json list \<Rightarrow> collector \<Rightarrow> error + json list \<times> collector" where
  "buffers_loop env i [] st = Inr ([], st)"
| "buffers_loop env i (buffer # rest) st =
     (case process_buffer env i buffer st of Inl e \<Rightarrow> Inl e
      | Inr (buffer', st') \<Rightarrow>
          (case buffers_loop env (Suc i) rest st' of Inl e \<Rightarrow> Inl e
           | Inr (rest', st'') \<Rightarrow> Inr (buffer' # rest', st'')))"

text \<open>
  Lines 53 to 92. \<^verbatim>\<open>modifiedGltf.buffers\<close> is an array in a glTF document. A string has
  a positive length and characters without \<^verbatim>\<open>uri\<close>; a boolean, a number and an
  object without \<^verbatim>\<open>length\<close> have no length, so neither the loop nor the collapse runs.
\<close>

definition collapsed :: "nat \<Rightarrow> json" where
  "collapsed n = JArr [JObj [(''byteLength'', JNum (int n))]]"

definition convert_buffers :: "node \<Rightarrow> collector \<Rightarrow> error + collector" where
  "convert_buffers env st =
     (case map_of (modifiedGltf st) ''buffers'' of
        None \<Rightarrow> Inr st
      | Some b \<Rightarrow>
          if \<not> truthy b then Inr st
          else (case b of
                  JArr buffers \<Rightarrow>
                    (case buffers_loop env 0 buffers st of Inl e \<Rightarrow> Inl e
                     | Inr (buffers', st') \<Rightarrow>
                         Inr (st'\<lparr>modifiedGltf :=
                               AList.update ''buffers''
                                 (if length buffers' > 0 then collapsed (totalSize st')
                                  else JArr buffers')
                                 (modifiedGltf st')\<rparr>))
                | JStr s \<Rightarrow>
                    Inr (st\<lparr>modifiedGltf :=
                          AList.update ''buffers'' (collapsed (totalSize st)) (modifiedGltf st)\<rparr>)
                | JObj kvs \<Rightarrow>
                    (case map_of kvs ''length'' of None \<Rightarrow> Inr st | Some n \<Rightarrow> Inl Unmodelled)
                | _ \<Rightarrow> Inr st))"

subsection \<open>convertGLTFToGLB: collecting images\<close>

text \<open>
  Lines 101 to 127, once the image's file is read. A missing or falsy
  \<^verbatim>\<open>modifiedGltf.bufferViews\<close> becomes the empty array; only an array has a
  \<^verbatim>\<open>push\<close> to call.
\<close>

definition embed_image :: "node \<Rightarrow> string \<Rightarrow> byte list \<Rightarrow> json \<Rightarrow> collector \<Rightarrow> error + json \<times> collector" where
  "embed_image env uri imageData img st =
     (let mimeType = getMimeType (extname env uri);
          doc = (if \<not> truthy_opt (map_of (modifiedGltf st) ''bufferViews'')
                 then AList.update ''bufferViews'' (JArr []) (modifiedGltf st)
                 else modifiedGltf st)
      in case map_of doc ''bufferViews'' of
           Some (JArr views) \<Rightarrow>
             let bufferViewIndex = length views;
                 view = JObj [(''buffer'', JNum 0),
                              (''byteOffset'', JNum (int (totalSize st))),
                              (''byteLength'', JNum (int (length imageData)))];
                 doc' = AList.update ''bufferViews'' (JArr (views @ [view])) doc
             in (case assign_prop (delete_prop img ''uri'') ''bufferView''
                        (JNum (int bufferViewIndex)) of Inl e \<Rightarrow> Inl e
                 | Inr image1 \<Rightarrow>
                     (case assign_prop image1 ''mimeType'' (JStr mimeType) of
                        Inl e \<Rightarrow> Inl e
                      | Inr image2 \<Rightarrow>
                          Inr (image2,
                               advance (length imageData)
                                 (st\<lparr>modifiedGltf := doc',
                                     binaryChunks := binaryChunks st @ [FileData imageData]\<rparr>))))
         | _ \<Rightarrow> Inl TypeError)"

text \<open>Lines 97 to 129, the body of the loop over \<^verbatim>\<open>modifiedGltf.images\<close>.\<close>

definition process_image :: "node \<Rightarrow> json \<Rightarrow> collector \<Rightarrow> error + json \<times> collector" where
  "process_image env img st =
     (case external_uri img of Inl e \<Rightarrow> Inl e
      | Inr None \<Rightarrow> Inr (img, st)
      | Inr (Some uri) \<Rightarrow>
          (case readFile env uri of
             None \<Rightarrow> Inr (img, st)
           | Some (Inl e) \<Rightarrow> Inl e
           | Some (Inr imageData) \<Rightarrow> embed_image env uri imageData img st))"

fun images_loop :: "node \<Rightarrow> json list \<Rightarrow> collector \<Rightarrow> error + json list \<times> collector" where
  "images_loop env [] st = Inr ([], st)"
| "images_loop env (img # rest) st =
     (case process_image env img st of Inl e \<Rightarrow> Inl e
      | Inr (image', st') \<Rightarrow>
          (case images_loop env rest st' of Inl e \<Rightarrow> Inl e
           | Inr (rest', st'') \<Rightarrow> Inr (image' # rest', st'')))"

text \<open>
  Lines 95 to 131. As for the buffers, only an array gives the loop entries with a
  \<^verbatim>\<open>uri\<close>.
\<close>

definition convert_images :: "node \<Rightarrow> collector \<Rightarrow> error + collector" where
  "convert_images env st =
     (case map_of (modifiedGltf st) ''images'' of
        None \<Rightarrow> Inr st
      | Some v \<Rightarrow>
          if \<not> truthy v then Inr st
          else (case v of
                  JArr images \<Rightarrow>
                    (case images_loop env images st of Inl e \<Rightarrow> Inl e
                     | Inr (images', st') \<Rightarrow>
                         Inr (st'\<lparr>modifiedGltf :=
                               AList.update ''images'' (JArr images') (modifiedGltf st')\<rparr>))
                | JObj kvs \<Rightarrow>
                    (case map_of kvs ''length'' of None \<Rightarrow> Inr st | Some n \<Rightarrow> Inl Unmodelled)
                | _ \<Rightarrow> Inr st))"

text \<open>
  Lines 134 to 136: \<^verbatim>\<open>modifiedGltf.buffers[0].byteLength = totalSize\<close> when the array
  has an element.
\<close>

definition update_final_size :: "collector \<Rightarrow> error + collector" where
  "update_final_size st =
     (case map_of (modifiedGltf st) ''buffers'' of
        Some (JArr (buffer0 # rest)) \<Rightarrow>
          (case assign_prop buffer0 ''byteLength'' (JNum (int (totalSize st))) of
             Inl e \<Rightarrow> Inl e
           | Inr buffer0' \<Rightarrow>
               Inr (st\<lparr>modifiedGltf :=
                     AList.update ''buffers'' (JArr (buffer0' # rest)) (modifiedGltf st)\<rparr>))
      | _ \<Rightarrow> Inr st)"

subsection \<open>convertGLTFToGLB\<close>

text \<open>
  Lines 45 to 139, from the parsed document to the patched copy and
  \<^verbatim>\<open>binaryChunks\<close>. Reading a property of \<^verbatim>\<open>null\<close> throws; a document that is
  an array, a string, a number or a boolean has none of the three properties.
\<close>

definition collect :: "node \<Rightarrow> json \<Rightarrow> error + json \<times> collector" where
  "collect env gltfData =
     (case gltfData of
        JNull \<Rightarrow> Inl TypeError
      | JObj doc \<Rightarrow>
          (case convert_buffers env \<lparr>modifiedGltf = doc, binaryChunks = [], totalSize = 0\<rparr> of
             Inl e \<Rightarrow> Inl e
           | Inr st1 \<Rightarrow>
               (case convert_images env st1 of
                  Inl e \<Rightarrow> Inl e
                | Inr st2 \<Rightarrow>
                    (case update_final_size st2 of
                       Inl e \<Rightarrow> Inl e
                     | Inr st3 \<Rightarrow> Inr (JObj (modifiedGltf st3), st3))))
      | v \<Rightarrow> Inr (v, \<lparr>modifiedGltf = [], binaryChunks = [], totalSize = 0\<rparr>))"

text \<open>The bytes written to the \<^verbatim>\<open>.glb\<close> file for a parsed document.\<close>

definition convertGLTFToGLB :: "node \<Rightarrow> json \<Rightarrow> error + byte list" where
  "convertGLTFToGLB env gltfData =
     (case collect env gltfData of Inl e \<Rightarrow> Inl e
      | Inr (patched, st) \<Rightarrow> createGLB env patched (Buffer_concat (binaryChunks st)))"

subsection \<open>A concrete Node for evaluation\<close>

text \<open>
  \<^verbatim>\<open>JSON.stringify\<close> on the values above (integers print in decimal, strings escape
  the quote, the backslash and the control characters), \<^verbatim>\<open>path.extname\<close> of POSIX
  paths, and a file system given as a list of readable files.
\<close>

definition hex_digit :: "nat \<Rightarrow> char" where
  "hex_digit d = (if d < 10 then char_of (48 + d) else char_of (87 + d))"

definition escape_char :: "char \<Rightarrow> string" where
  "escape_char c =
     (if c = CHR 0x22 then [CHR 0x5C, CHR 0x22]
      else if c = CHR 0x5C then [CHR 0x5C, CHR 0x5C]
      else if c = CHR 0x08 then [CHR 0x5C, CHR ''b'']
      else if c = CHR 0x09 then [CHR 0x5C, CHR ''t'']
      else if c = CHR 0x0A then [CHR 0x5C, CHR ''n'']
      else if c = CHR 0x0C then [CHR 0x5C, CHR ''f'']
      else if c = CHR 0x0D then [CHR 0x5C, CHR ''r'']
      else if (of_char c :: nat) < 32
           then [CHR 0x5C, CHR ''u'', CHR ''0'', CHR ''0'',
                 hex_digit (of_char c div 16), hex_digit (of_char c mod 16)]
      else [c])"

definition quote :: "string \<Rightarrow> string" where
  "quote s = [CHR 0x22] @ concat (map escape_char s) @ [CHR 0x22]"

definition show_int :: "int \<Rightarrow> string" where
  "show_int n = (if n < 0 then ''-'' @ decimal (nat (- n)) else decimal (nat n))"

fun commas :: "string list \<Rightarrow> string" where
  "commas [] = []"
| "commas [x] = x"
| "commas (x # y # ys) = x @ '','' @ commas (y # ys)"

fun JSON_stringify :: "json \<Rightarrow> string"
  and stringify_elements :: "json list \<Rightarrow> string list"
  and stringify_members :: "(string \<times> json) list \<Rightarrow> string list" where
  "JSON_stringify JNull = ''null''"
| "JSON_stringify (JBool b) = (if b then ''true'' else ''false'')"
| "JSON_stringify (JNum n) = show_int n"
| "JSON_stringify (JStr s) = quote s"
| "JSON_stringify (JArr xs) = ''['' @ commas (stringify_elements xs) @ '']''"
| "JSON_stringify (JObj kvs) = ''{'' @ commas (stringify_members kvs) @ ''}''"
| "stringify_elements [] = []"
| "stringify_elements (x # xs) = JSON_stringify x # stringify_elements xs"
| "stringify_members [] = []"
| "stringify_members ((k, v) # kvs) =
     (quote k @ '':'' @ JSON_stringify v) # stringify_members kvs"

definition utf8 :: "string \<Rightarrow> byte list" where
  "utf8 s = map of_char s"

definition posix_extname :: "string \<Rightarrow> string" where
  "posix_extname path =
     (let trimmed = rev (dropWhile (\<lambda>c. c = CHR ''/'') (rev path));
          base = rev (takeWhile (\<lambda>c. c \<noteq> CHR ''/'') (rev trimmed));
          ext = rev (takeWhile (\<lambda>c. c \<noteq> CHR ''.'') (rev base))
      in if CHR ''.'' \<notin> set base then []
         else if Suc (length ext) = length base then []
         else if base = ''..'' then []
         else CHR ''.'' # ext)"

definition node_with :: "(string \<times> byte list) list \<Rightarrow> node" where
  "node_with files =
     \<lparr>stringify = (\<lambda>v. utf8 (JSON_stringify v)),
      extname = posix_extname,
      readFile = (\<lambda>uri. map_option Inr (map_of files uri))\<rparr>"

subsection \<open>The converter on a store of objects\<close>

text \<open>
  In JavaScript a parsed document is a graph of objects, and two variables may hold the
  same object. Here a value is a primitive or the address of a cell of the store; a cell
  is an object or an array. \<^verbatim>\<open>JSON.parse\<close> creates a new cell for every object and array of
  the text (given by its syntax tree), the members before the cell that holds them.
\<close>

datatype val = VNull | VBool bool | VNum int | VStr string | VRef nat

datatype cell = Object "(string \<times> val) list" | Array "val list"

type_synonym store = "cell list"

definition new_cell :: "store \<Rightarrow> cell \<Rightarrow> val \<times> store" where
  "new_cell s c = (VRef (length s), s @ [c])"

fun JSON_parse :: "json \<Rightarrow> store \<Rightarrow> val \<times> store"
  and parse_elements :: "json list \<Rightarrow> store \<Rightarrow> val list \<times> store"
  and parse_members :: "(string \<times> json) list \<Rightarrow> store \<Rightarrow> (string \<times> val) list \<times> store" where
  "JSON_parse JNull s = (VNull, s)"
| "JSON_parse (JBool b) s = (VBool b, s)"
| "JSON_parse (JNum n) s = (VNum n, s)"
| "JSON_parse (JStr str) s = (VStr str, s)"
| "JSON_parse (JArr xs) s = (case parse_elements xs s of (vs, s') \<Rightarrow> new_cell s' (Array vs))"
| "JSON_parse (JObj kvs) s = (case parse_members kvs s of (ps, s') \<Rightarrow> new_cell s' (Object ps))"
| "parse_elements [] s = ([], s)"
| "parse_elements (x # xs) s =
     (case JSON_parse x s of (v, s1) \<Rightarrow>
        (case parse_elements xs s1 of (vs, s2) \<Rightarrow> (v # vs, s2)))"
| "parse_members [] s = ([], s)"
| "parse_members ((k, x) # kvs) s =
     (case JSON_parse x s of (v, s1) \<Rightarrow>
        (case parse_members kvs s1 of (ps, s2) \<Rightarrow> ((k, v) # ps, s2)))"

text \<open>
  \<^verbatim>\<open>JSON.stringify\<close>, as the syntax tree of the text it returns. It throws a \<^verbatim>\<open>TypeError\<close>
  on a structure that contains itself: the walk may enter as many cells, one inside the
  other, as the store has, and a walk that has to enter one more has met a cell twice.
\<close>

primrec tree :: "nat \<Rightarrow> store \<Rightarrow> val \<Rightarrow> error + json" where
  "tree 0 s v =
     (case v of VNull \<Rightarrow> Inr JNull | VBool b \<Rightarrow> Inr (JBool b) | VNum n \<Rightarrow> Inr (JNum n)
      | VStr str \<Rightarrow> Inr (JStr str) | VRef a \<Rightarrow> Inl TypeError)"
| "tree (Suc depth) s v =
     (case v of VNull \<Rightarrow> Inr JNull | VBool b \<Rightarrow> Inr (JBool b) | VNum n \<Rightarrow> Inr (JNum n)
      | VStr str \<Rightarrow> Inr (JStr str)
      | VRef a \<Rightarrow>
          if a < length s
          then (case s ! a of
                  Array vs \<Rightarrow>
                    (case map_err (tree depth s) vs of Inl e \<Rightarrow> Inl e
                     | Inr xs \<Rightarrow> Inr (JArr xs))
                | Object ps \<Rightarrow>
                    (case map_err (\<lambda>(k, x). case tree depth s x of Inl e \<Rightarrow> Inl e
                                              | Inr y \<Rightarrow> Inr (k, y)) ps of
                       Inl e \<Rightarrow> Inl e
                     | Inr kvs \<Rightarrow> Inr (JObj kvs)))
          else Inl Unmodelled)"

definition JSON_tree :: "store \<Rightarrow> val \<Rightarrow> error + json" where
  "JSON_tree s v = tree (length s) s v"

text \<open>
  Truthiness, property reads and writes, as for the values above, on the store. An array
  has none of the names the converter reads with a dot (its \<^verbatim>\<open>length\<close> and its elements
  are read below), and a property assigned to an array is no element: it is dropped, as
  above. An address outside the store does not occur in a store made by \<^verbatim>\<open>JSON.parse\<close>.
\<close>

fun truthy_val :: "val \<Rightarrow> bool" where
  "truthy_val VNull = False"
| "truthy_val (VBool b) = b"
| "truthy_val (VNum n) = (n \<noteq> 0)"
| "truthy_val (VStr str) = (str \<noteq> [])"
| "truthy_val (VRef a) = True"

fun truthy_val_opt :: "val option \<Rightarrow> bool" where
  "truthy_val_opt None = False"
| "truthy_val_opt (Some v) = truthy_val v"

definition get_property :: "store \<Rightarrow> val \<Rightarrow> string \<Rightarrow> error + val option" where
  "get_property s v name =
     (case v of
        VNull \<Rightarrow> Inl TypeError
      | VRef a \<Rightarrow>
          if a < length s
          then (case s ! a of Object ps \<Rightarrow> Inr (map_of ps name) | Array vs \<Rightarrow> Inr None)
          else Inl Unmodelled
      | _ \<Rightarrow> Inr None)"

definition set_property :: "store \<Rightarrow> val \<Rightarrow> string \<Rightarrow> val \<Rightarrow> error + store" where
  "set_property s v name x =
     (case v of
        VRef a \<Rightarrow>
          if a < length s
          then (case s ! a of
                  Object ps \<Rightarrow> Inr (s[a := Object (AList.update name x ps)])
                | Array vs \<Rightarrow> Inr s)
          else Inl Unmodelled
      | _ \<Rightarrow> Inl TypeError)"

definition delete_property :: "store \<Rightarrow> val \<Rightarrow> string \<Rightarrow> store" where
  "delete_property s v name =
     (case v of
        VRef a \<Rightarrow>
          if a < length s
          then (case s ! a of
                  Object ps \<Rightarrow> s[a := Object (AList.delete name ps)]
                | Array vs \<Rightarrow> s)
          else s
      | _ \<Rightarrow> s)"

text \<open>
  \<^verbatim>\<open>x.length\<close> as the bound of a loop and in \<^verbatim>\<open>x.length > 0\<close>: no length (\<^verbatim>\<open>undefined\<close>)
  compares like 0. \<^verbatim>\<open>x[i]\<close> for an index below the length. \<^verbatim>\<open>x.push(y)\<close>, which only an
  array has.
\<close>

definition loop_length :: "store \<Rightarrow> val \<Rightarrow> error + nat" where
  "loop_length s v =
     (case v of
        VNull \<Rightarrow> Inl TypeError
      | VStr str \<Rightarrow> Inr (length str)
      | VRef a \<Rightarrow>
          if a < length s
          then (case s ! a of
                  Array vs \<Rightarrow> Inr (length vs)
                | Object ps \<Rightarrow>
                    (case map_of ps ''length'' of None \<Rightarrow> Inr 0 | Some n \<Rightarrow> Inl Unmodelled))
          else Inl Unmodelled
      | _ \<Rightarrow> Inr 0)"

definition property_length :: "store \<Rightarrow> val \<Rightarrow> string \<Rightarrow> error + nat" where
  "property_length s v name =
     (case get_property s v name of Inl e \<Rightarrow> Inl e
      | Inr None \<Rightarrow> Inl TypeError
      | Inr (Some x) \<Rightarrow> loop_length s x)"

definition element :: "store \<Rightarrow> val \<Rightarrow> nat \<Rightarrow> error + val" where
  "element s v i =
     (case v of
        VStr str \<Rightarrow> if i < length str then Inr (VStr [str ! i]) else Inl Unmodelled
      | VRef a \<Rightarrow>
          if a < length s
          then (case s ! a of
                  Array vs \<Rightarrow> if i < length vs then Inr (vs ! i) else Inl Unmodelled
                | Object ps \<Rightarrow> Inl Unmodelled)
          else Inl Unmodelled
      | _ \<Rightarrow> Inl Unmodelled)"

definition property_element :: "store \<Rightarrow> val \<Rightarrow> string \<Rightarrow> nat \<Rightarrow> error + val" where
  "property_element s v name i =
     (case get_property s v name of Inl e \<Rightarrow> Inl e
      | Inr None \<Rightarrow> Inl TypeError
      | Inr (Some x) \<Rightarrow> element s x i)"

definition is_array :: "store \<Rightarrow> val \<Rightarrow> bool" where
  "is_array s v =
     (case v of
        VRef a \<Rightarrow> a < length s \<and> (case s ! a of Array vs \<Rightarrow> True | Object ps \<Rightarrow> False)
      | _ \<Rightarrow> False)"

definition push :: "store \<Rightarrow> val \<Rightarrow> val \<Rightarrow> error + store" where
  "push s v x =
     (case v of
        VRef a \<Rightarrow>
          if a < length s
          then (case s ! a of
                  Array vs \<Rightarrow> Inr (s[a := Array (vs @ [x])])
                | Object ps \<Rightarrow> Inl TypeError)
          else Inl Unmodelled
      | _ \<Rightarrow> Inl TypeError)"

text \<open>
  A step that may throw, and a step that may also not return, each followed by the
  rest of the function.
\<close>

definition attempt :: "error + 'a \<Rightarrow> ('a \<Rightarrow> (error + 'b) option) \<Rightarrow> (error + 'b) option" where
  "attempt r f = (case r of Inl e \<Rightarrow> Some (Inl e) | Inr x \<Rightarrow> f x)"

definition after :: "(error + 'a) option \<Rightarrow> ('a \<Rightarrow> (error + 'b) option) \<Rightarrow> (error + 'b) option" where
  "after r f = (case r of None \<Rightarrow> None | Some (Inl e) \<Rightarrow> Some (Inl e) | Some (Inr x) \<Rightarrow> f x)"

text \<open>
  \<^verbatim>\<open>for (let i = 0; i < x.length; i++)\<close> and \<^verbatim>\<open>for (const y of x)\<close> on an array: the length is
  read again before every round, so a body that makes the array longer makes the loop
  longer, and the loop may not end.
\<close>

partial_function (option) for_index ::
  "(store \<Rightarrow> error + nat) \<Rightarrow> (nat \<Rightarrow> 'a \<Rightarrow> store \<Rightarrow> (error + 'a \<times> store) option)
     \<Rightarrow> nat \<Rightarrow> 'a \<Rightarrow> store \<Rightarrow> (error + 'a \<times> store) option" where
  "for_index len body i acc s =
     (case len s of
        Inl e \<Rightarrow> Some (Inl e)
      | Inr n \<Rightarrow>
          if i < n
          then (case body i acc s of
                  None \<Rightarrow> None
                | Some (Inl e) \<Rightarrow> Some (Inl e)
                | Some (Inr (acc', s')) \<Rightarrow> for_index len body (Suc i) acc' s')
          else Some (Inr (acc, s)))"

text \<open>The guard \<^verbatim>\<open>x.uri && !x.uri.startsWith('data:')\<close>.\<close>

definition uri_guard :: "store \<Rightarrow> val \<Rightarrow> error + string option" where
  "uri_guard s entry =
     (case get_property s entry ''uri'' of Inl e \<Rightarrow> Inl e
      | Inr None \<Rightarrow> Inr None
      | Inr (Some u) \<Rightarrow>
          if \<not> truthy_val u then Inr None
          else (case u of
                  VStr str \<Rightarrow> if take 5 str = ''data:'' then Inr None else Inr (Some str)
                | _ \<Rightarrow> Inl TypeError))"

text \<open>\<^verbatim>\<open>(bufferView.byteOffset || 0) + totalSize\<close>, as \<^const>\<open>add_offset\<close>.\<close>

fun offset_sum :: "val option \<Rightarrow> nat \<Rightarrow> error + val" where
  "offset_sum None start = (if exact (int start) then Inr (VNum (int start)) else Inl Unmodelled)"
| "offset_sum (Some (VNum n)) start =
     (if exact n \<and> exact (int start) \<and> exact (n + int start)
      then Inr (VNum (n + int start)) else Inl Unmodelled)"
| "offset_sum (Some VNull) start =
     (if exact (int start) then Inr (VNum (int start)) else Inl Unmodelled)"
| "offset_sum (Some (VBool b)) start =
     (if exact (int start) \<and> exact ((if b then 1 else 0) + int start)
      then Inr (VNum ((if b then 1 else 0) + int start)) else Inl Unmodelled)"
| "offset_sum (Some (VStr str)) start =
     (if \<not> exact (int start) then Inl Unmodelled
      else if str \<noteq> [] then Inr (VStr (str @ decimal start)) else Inr (VNum (int start)))"
| "offset_sum (Some (VRef a)) start = Inl Unmodelled"

text \<open>Lines 65 to 68, for one element of \<^verbatim>\<open>modifiedGltf.bufferViews\<close>.\<close>

definition retarget :: "nat \<Rightarrow> nat \<Rightarrow> val \<Rightarrow> store \<Rightarrow> error + store" where
  "retarget i start bufferView s =
     (case get_property s bufferView ''buffer'' of Inl e \<Rightarrow> Inl e
      | Inr b \<Rightarrow>
          if b = Some (VNum (int i)) then
            (case get_property s bufferView ''byteOffset'' of Inl e \<Rightarrow> Inl e
             | Inr off \<Rightarrow>
                 (case offset_sum off start of Inl e \<Rightarrow> Inl e
                  | Inr byteOffset \<Rightarrow>
                      (case set_property s bufferView ''byteOffset'' byteOffset of
                         Inl e \<Rightarrow> Inl e
                       | Inr s' \<Rightarrow> set_property s' bufferView ''buffer'' (VNum 0))))
          else Inr s)"

text \<open>
  Lines 63 to 70. The loop walks the array it found in \<^verbatim>\<open>modifiedGltf.bufferViews\<close>; the
  characters of a string have no \<^verbatim>\<open>buffer\<close>; anything else truthy is not iterable.
\<close>

definition retarget_views :: "val \<Rightarrow> nat \<Rightarrow> nat \<Rightarrow> store \<Rightarrow> (error + store) option" where
  "retarget_views modified i start s =
     attempt (get_property s modified ''bufferViews'') (\<lambda>bufferViews.
       case bufferViews of
         None \<Rightarrow> Some (Inr s)
       | Some views \<Rightarrow>
           if \<not> truthy_val views then Some (Inr s)
           else if is_array s views then
             after (for_index (\<lambda>s. loop_length s views)
                      (\<lambda>j u s. attempt (element s views j) (\<lambda>bufferView.
                                 attempt (retarget i start bufferView s) (\<lambda>s'.
                                   Some (Inr (u, s')))))
                      0 () s)
               (\<lambda>(u, s'). Some (Inr s'))
           else (case views of VStr str \<Rightarrow> Some (Inr s) | _ \<Rightarrow> Some (Inl TypeError)))"

text \<open>Lines 72 to 78 and 120 to 127, on the pair of \<^verbatim>\<open>binaryChunks\<close> and \<^verbatim>\<open>totalSize\<close>.\<close>

definition grow :: "byte list \<Rightarrow> chunk list \<times> nat \<Rightarrow> chunk list \<times> nat" where
  "grow data acc =
     (case acc of (chunks, start) \<Rightarrow>
        let grown = start + length data;
            padding = padding4 grown
        in if padding > 0
           then (chunks @ [FileData data, Padding (replicate padding 0)], grown + padding)
           else (chunks @ [FileData data], grown))"

text \<open>Lines 55 to 83, the body of the loop over \<^verbatim>\<open>modifiedGltf.buffers\<close>, at index \<open>i\<close>.\<close>

definition buffers_step ::
  "node \<Rightarrow> val \<Rightarrow> nat \<Rightarrow> chunk list \<times> nat \<Rightarrow> store \<Rightarrow> (error + (chunk list \<times> nat) \<times> store) option" where
  "buffers_step env modified i acc s =
     attempt (property_element s modified ''buffers'' i) (\<lambda>buffer.
     attempt (uri_guard s buffer) (\<lambda>guard.
       case guard of
         None \<Rightarrow> Some (Inr (acc, s))
       | Some uri \<Rightarrow>
           (case readFile env uri of
              None \<Rightarrow> Some (Inr (acc, s))
            | Some (Inl e) \<Rightarrow> Some (Inl e)
            | Some (Inr bufferData) \<Rightarrow>
                after (retarget_views modified i (snd acc) s) (\<lambda>s'.
                  Some (Inr (grow bufferData acc, delete_property s' buffer ''uri''))))))"

text \<open>Lines 53 to 92.\<close>

definition buffers_pass ::
  "node \<Rightarrow> val \<Rightarrow> chunk list \<times> nat \<Rightarrow> store \<Rightarrow> (error + (chunk list \<times> nat) \<times> store) option" where
  "buffers_pass env modified acc s =
     attempt (get_property s modified ''buffers'') (\<lambda>buffers.
       if \<not> truthy_val_opt buffers then Some (Inr (acc, s))
       else
         after (for_index (\<lambda>s. property_length s modified ''buffers'')
                  (buffers_step env modified) 0 acc s) (\<lambda>(acc', s1).
         attempt (property_length s1 modified ''buffers'') (\<lambda>n.
           if n > 0 then
             (case new_cell s1 (Object [(''byteLength'', VNum (int (snd acc')))]) of
                (buffer0, s2) \<Rightarrow>
                  (case new_cell s2 (Array [buffer0]) of
                     (buffers', s3) \<Rightarrow>
                       attempt (set_property s3 modified ''buffers'' buffers') (\<lambda>s4.
                         Some (Inr (acc', s4)))))
           else Some (Inr (acc', s1)))))"

text \<open>Lines 97 to 129, the body of the loop over \<^verbatim>\<open>modifiedGltf.images\<close>, at index \<open>i\<close>.\<close>

definition images_step ::
  "node \<Rightarrow> val \<Rightarrow> nat \<Rightarrow> chunk list \<times> nat \<Rightarrow> store \<Rightarrow> (error + (chunk list \<times> nat) \<times> store) option" where
  "images_step env modified i acc s =
     attempt (property_element s modified ''images'' i) (\<lambda>img.
     attempt (uri_guard s img) (\<lambda>guard.
       case guard of
         None \<Rightarrow> Some (Inr (acc, s))
       | Some uri \<Rightarrow>
           (case readFile env uri of
              None \<Rightarrow> Some (Inr (acc, s))
            | Some (Inl e) \<Rightarrow> Some (Inl e)
            | Some (Inr imageData) \<Rightarrow>
                attempt (get_property s modified ''bufferViews'') (\<lambda>views0.
                attempt (if \<not> truthy_val_opt views0
                         then (case new_cell s (Array []) of
                                 (views', s0) \<Rightarrow> set_property s0 modified ''bufferViews'' views')
                         else Inr s) (\<lambda>s1.
                attempt (get_property s1 modified ''bufferViews'') (\<lambda>views.
                  case views of
                    None \<Rightarrow> Some (Inl TypeError)
                  | Some bufferViews \<Rightarrow>
                      if \<not> is_array s1 bufferViews then Some (Inl TypeError)
                      else
                        attempt (loop_length s1 bufferViews) (\<lambda>bufferViewIndex.
                          case new_cell s1
                                 (Object [(''buffer'', VNum 0),
                                          (''byteOffset'', VNum (int (snd acc))),
                                          (''byteLength'', VNum (int (length imageData)))]) of
                            (view, s2) \<Rightarrow>
                              attempt (push s2 bufferViews view) (\<lambda>s3.
                              attempt (set_property (delete_property s3 img ''uri'') img
                                         ''bufferView'' (VNum (int bufferViewIndex))) (\<lambda>s4.
                              attempt (set_property s4 img ''mimeType''
                                         (VStr (getMimeType (extname env uri)))) (\<lambda>s5.
                                Some (Inr (grow imageData acc, s5))))))))))))"

text \<open>Lines 95 to 131.\<close>

definition images_pass ::
  "node \<Rightarrow> val \<Rightarrow> chunk list \<times> nat \<Rightarrow> store \<Rightarrow> (error + (chunk list \<times> nat) \<times> store) option" where
  "images_pass env modified acc s =
     attempt (get_property s modified ''images'') (\<lambda>images.
       if \<not> truthy_val_opt images then Some (Inr (acc, s))
       else for_index (\<lambda>s. property_length s modified ''images'')
              (images_step env modified) 0 acc s)"

text \<open>Lines 134 to 136.\<close>

definition final_size :: "val \<Rightarrow> nat \<Rightarrow> store \<Rightarrow> error + store" where
  "final_size modified start s =
     (case get_property s modified ''buffers'' of Inl e \<Rightarrow> Inl e
      | Inr None \<Rightarrow> Inr s
      | Inr (Some buffers) \<Rightarrow>
          if \<not> truthy_val buffers then Inr s
          else (case loop_length s buffers of Inl e \<Rightarrow> Inl e
                | Inr n \<Rightarrow>
                    if n > 0
                    then (case element s buffers 0 of Inl e \<Rightarrow> Inl e
                          | Inr buffer0 \<Rightarrow>
                              set_property s buffer0 ''byteLength'' (VNum (int start)))
                    else Inr s))"

text \<open>Lines 163 to 211 of \<^verbatim>\<open>createGLB\<close>, from the document that is serialized.\<close>

definition glb_bytes :: "node \<Rightarrow> json \<Rightarrow> byte list \<Rightarrow> error + byte list" where
  "glb_bytes env clean binaryBuffer =
     (let gltfBuffer = stringify env clean;
          jsonLength = length gltfBuffer;
          jsonPadding = padding4 jsonLength;
          jsonChunkLength = jsonLength + jsonPadding;
          paddedJsonBuffer = gltfBuffer @ replicate jsonPadding 0x20;
          binaryLength = length binaryBuffer;
          binaryPadding = padding4 binaryLength;
          binaryChunkLength = binaryLength + binaryPadding;
          paddedBinaryBuffer = binaryBuffer @ replicate binaryPadding 0;
          totalLength = 12 + 8 + jsonChunkLength
            + (if binaryChunkLength > 0 then 8 + binaryChunkLength else 0)
      in (case glb_header totalLength of
            Inl e \<Rightarrow> Inl e
          | Inr header \<Rightarrow>
              (case chunk_header jsonChunkLength 0x4E4F534A of
                 Inl e \<Rightarrow> Inl e
               | Inr jsonChunkHeader \<Rightarrow>
                   if binaryChunkLength > 0
                   then (case chunk_header binaryChunkLength 0x004E4942 of
                           Inl e \<Rightarrow> Inl e
                         | Inr binaryChunkHeader \<Rightarrow>
                             Inr (header @ jsonChunkHeader @ paddedJsonBuffer
                                    @ binaryChunkHeader @ paddedBinaryBuffer))
                   else Inr (header @ jsonChunkHeader @ paddedJsonBuffer))))"

text \<open>
  \<^verbatim>\<open>createGLB\<close>: the copy of its argument (lines 156), the \<^verbatim>\<open>asset\<close> the copy gets (lines
  159 to 161), and the container made of the text of the copy.
\<close>

definition createGLB_store :: "node \<Rightarrow> val \<Rightarrow> byte list \<Rightarrow> store \<Rightarrow> error + byte list \<times> store" where
  "createGLB_store env gltfData binaryBuffer s =
     (case JSON_tree s gltfData of Inl e \<Rightarrow> Inl e
      | Inr txt \<Rightarrow>
          (case JSON_parse txt s of
             (copy, s1) \<Rightarrow>
               (case get_property s1 copy ''asset'' of Inl e \<Rightarrow> Inl e
                | Inr asset \<Rightarrow>
                    (case (if \<not> truthy_val_opt asset
                           then (case new_cell s1 (Object [(''version'', VStr ''2.0'')]) of
                                   (a, s2) \<Rightarrow> set_property s2 copy ''asset'' a)
                           else Inr s1) of
                       Inl e \<Rightarrow> Inl e
                     | Inr s3 \<Rightarrow>
                         (case JSON_tree s3 copy of Inl e \<Rightarrow> Inl e
                          | Inr clean \<Rightarrow>
                              (case glb_bytes env clean binaryBuffer of Inl e \<Rightarrow> Inl e
                               | Inr glb \<Rightarrow> Inr (glb, s3)))))))"

text \<open>
  \<^verbatim>\<open>convertGLTFToGLB\<close> from line 45 on: \<open>gltfData\<close> is the parsed document in the store
  \<open>s\<close>. The result is the container and the store the function leaves; \<open>None\<close> is a
  conversion that does not end.
\<close>

definition convert_store :: "node \<Rightarrow> val \<Rightarrow> store \<Rightarrow> (error + byte list \<times> store) option" where
  "convert_store env gltfData s =
     attempt (JSON_tree s gltfData) (\<lambda>txt.
       case JSON_parse txt s of
         (modified, s0) \<Rightarrow>
           after (buffers_pass env modified ([], 0) s0) (\<lambda>(acc1, s1).
           after (images_pass env modified acc1 s1) (\<lambda>(acc2, s2).
           attempt (final_size modified (snd acc2) s2) (\<lambda>s3.
           attempt (createGLB_store env modified (Buffer_concat (fst acc2)) s3) (\<lambda>r.
             Some (Inr r))))))"

section \<open>Notions of the specification\<close>

subsection \<open>The container layout\<close>

text \<open>
  The four bytes of a little-endian 32-bit field, the two padded payloads, and the
  container the specification describes: header, JSON chunk, and the BIN chunk when there
  is binary data.
\<close>

definition uint32le :: "nat \<Rightarrow> byte list" where
  "uint32le v = [of_nat v, of_nat (v div 256), of_nat (v div 65536), of_nat (v div 16777216)]"

definition json_payload :: "node \<Rightarrow> json \<Rightarrow> byte list" where
  "json_payload env clean =
     stringify env clean @ replicate (padding4 (length (stringify env clean))) 0x20"

definition bin_payload :: "byte list \<Rightarrow> byte list" where
  "bin_payload binaryBuffer = binaryBuffer @ replicate (padding4 (length binaryBuffer)) 0"

definition container :: "node \<Rightarrow> json \<Rightarrow> byte list \<Rightarrow> nat \<Rightarrow> byte list" where
  "container env clean binaryBuffer totalLength =
     uint32le 0x46546C67 @ uint32le 2 @ uint32le totalLength
     @ uint32le (length (json_payload env clean)) @ uint32le 0x4E4F534A @ json_payload env clean
     @ (if binaryBuffer = [] then []
        else uint32le (length (bin_payload binaryBuffer)) @ uint32le 0x004E4942
             @ bin_payload binaryBuffer)"

definition container_length :: "node \<Rightarrow> json \<Rightarrow> byte list \<Rightarrow> nat" where
  "container_length env clean binaryBuffer =
     12 + 8 + length (json_payload env clean)
     + (if binaryBuffer = [] then 0 else 8 + length (bin_payload binaryBuffer))"

definition loaded :: "node \<Rightarrow> json \<Rightarrow> byte list option" where
  "loaded env entry =
     (case external_uri entry of
        Inr (Some uri) \<Rightarrow> (case readFile env uri of Some (Inr data) \<Rightarrow> Some data | _ \<Rightarrow> None)
      | _ \<Rightarrow> None)"

fun files :: "node \<Rightarrow> json list \<Rightarrow> byte list list" where
  "files env [] = []"
| "files env (entry # entries) =
     (case loaded env entry of None \<Rightarrow> files env entries | Some d \<Rightarrow> d # files env entries)"

definition padded_length :: "nat \<Rightarrow> nat" where
  "padded_length n = n + padding4 n"

definition region_length :: "byte list list \<Rightarrow> nat" where
  "region_length ds = sum_list (map (\<lambda>d. padded_length (length d)) ds)"

definition segment :: "byte list \<Rightarrow> chunk list" where
  "segment d =
     FileData d #
     (if padding4 (length d) > 0 then [Padding (replicate (padding4 (length d)) 0)] else [])"

fun patch_all :: "node \<Rightarrow> nat \<Rightarrow> json list \<Rightarrow> nat \<Rightarrow> json \<Rightarrow> error + json" where
  "patch_all env i [] start v = Inr v"
| "patch_all env i (b # bs) start v =
     (case loaded env b of
        None \<Rightarrow> patch_all env (Suc i) bs start v
      | Some d \<Rightarrow>
          (case patch_view i start v of
             Inl e \<Rightarrow> Inl e
           | Inr v' \<Rightarrow> patch_all env (Suc i) bs (start + padded_length (length d)) v'))"

definition image_view :: "nat \<Rightarrow> nat \<Rightarrow> json" where
  "image_view off n =
     JObj [(''buffer'', JNum 0), (''byteOffset'', JNum (int off)), (''byteLength'', JNum (int n))]"

fun image_views :: "node \<Rightarrow> nat \<Rightarrow> json list \<Rightarrow> json list" where
  "image_views env off [] = []"
| "image_views env off (img # imgs) =
     (case loaded env img of
        None \<Rightarrow> image_views env off imgs
      | Some d \<Rightarrow> image_view off (length d) # image_views env (off + padded_length (length d)) imgs)"

fun entries_of :: "json option \<Rightarrow> json list" where
  "entries_of (Some (JArr xs)) = xs"
| "entries_of v = []"

definition the_uri :: "json \<Rightarrow> string" where
  "the_uri entry = (case external_uri entry of Inr (Some uri) \<Rightarrow> uri | _ \<Rightarrow> [])"

fun embedded :: "string \<Rightarrow> nat \<Rightarrow> json \<Rightarrow> json" where
  "embedded mimeType idx (JObj kvs) =
     JObj (AList.update ''mimeType'' (JStr mimeType)
            (AList.update ''bufferView'' (JNum (int idx)) (AList.delete ''uri'' kvs)))"
| "embedded mimeType idx v = v"

fun patched_images :: "node \<Rightarrow> nat \<Rightarrow> json list \<Rightarrow> json list" where
  "patched_images env idx [] = []"
| "patched_images env idx (img # imgs) =
     (case loaded env img of
        None \<Rightarrow> img # patched_images env idx imgs
      | Some d \<Rightarrow>
          embedded (getMimeType (extname env (the_uri img))) idx img
            # patched_images env (Suc idx) imgs)"

fun has_entries :: "json option \<Rightarrow> bool" where
  "has_entries (Some (JArr (x # xs))) = True"
| "has_entries (Some (JStr (c # cs))) = True"
| "has_entries v = False"

definition set_views :: "json list \<Rightarrow> (string \<times> json) list \<Rightarrow> (string \<times> json) list" where
  "set_views vs' doc =
     (case map_of doc ''bufferViews'' of
        Some (JArr vs) \<Rightarrow> AList.update ''bufferViews'' (JArr vs') doc
      | _ \<Rightarrow> doc)"

definition collapse_buffers :: "bool \<Rightarrow> nat \<Rightarrow> (string \<times> json) list \<Rightarrow> (string \<times> json) list" where
  "collapse_buffers c t doc = (if c then AList.update ''buffers'' (collapsed t) doc else doc)"

definition add_image_views :: "json list \<Rightarrow> json list \<Rightarrow> (string \<times> json) list \<Rightarrow> (string \<times> json) list" where
  "add_image_views new vs doc =
     (if new = [] then doc else AList.update ''bufferViews'' (JArr (vs @ new)) doc)"

definition set_images :: "json list \<Rightarrow> (string \<times> json) list \<Rightarrow> (string \<times> json) list" where
  "set_images imgs' doc =
     (case map_of doc ''images'' of
        Some (JArr imgs) \<Rightarrow> AList.update ''images'' (JArr imgs') doc
      | _ \<Rightarrow> doc)"

definition patched_document :: "node \<Rightarrow> (string \<times> json) list \<Rightarrow> json list \<Rightarrow> (string \<times> json) list" where
  "patched_document env doc vs' =
     (let bs = entries_of (map_of doc ''buffers'');
          imgs = entries_of (map_of doc ''images'');
          c = has_entries (map_of doc ''buffers'');
          t1 = region_length (files env bs);
          t2 = region_length (files env bs @ files env imgs)
      in collapse_buffers c t2
           (set_images (patched_images env (length vs') imgs)
              (add_image_views (image_views env t1 imgs) vs'
                 (collapse_buffers c t1 (set_views vs' doc)))))"

definition round_up4 :: "nat \<Rightarrow> nat" where
  "round_up4 n = (n + 3) div 4 * 4"

fun segments :: "nat \<Rightarrow> chunk list \<Rightarrow> (nat \<times> byte list) list" where
  "segments off [] = []"
| "segments off (FileData d # chunks) = (off, d) # segments (off + length d) chunks"
| "segments off (Padding p # chunks) = segments (off + length p) chunks"

fun layout :: "nat \<Rightarrow> byte list list \<Rightarrow> (nat \<times> byte list) list" where
  "layout off [] = []"
| "layout off (d # ds) = (off, d) # layout (off + padded_length (length d)) ds"

definition padded :: "byte list \<Rightarrow> byte list" where
  "padded d = d @ replicate (padding4 (length d)) 0"

text \<open>
  The example of the specification: an external buffer of 10 bytes with one view, and an
  external image of 7 bytes.
\<close>

definition example_bin :: "byte list" where
  "example_bin = [1, 2, 3, 4, 5, 6, 7, 8, 9, 10]"

definition example_png :: "byte list" where
  "example_png = [1, 2, 3, 4, 5, 6, 7]"

definition example_node :: node where
  "example_node = node_with [(''a.bin'', example_bin), (''i.png'', example_png)]"

definition example_gltf :: "(string \<times> json) list" where
  "example_gltf =
     [(''buffers'', JArr [JObj [(''uri'', JStr ''a.bin''), (''byteLength'', JNum 10)]]),
      (''bufferViews'', JArr [JObj [(''buffer'', JNum 0), (''byteLength'', JNum 10)]]),
      (''images'', JArr [JObj [(''uri'', JStr ''i.png'')]])]"

definition example_patched :: "(string \<times> json) list" where
  "example_patched =
     [(''buffers'', JArr [JObj [(''byteLength'', JNum 20)]]),
      (''bufferViews'',
       JArr [JObj [(''buffer'', JNum 0), (''byteLength'', JNum 10), (''byteOffset'', JNum 0)],
             JObj [(''buffer'', JNum 0), (''byteOffset'', JNum 12), (''byteLength'', JNum 7)]]),
      (''images'', JArr [JObj [(''bufferView'', JNum 1), (''mimeType'', JStr ''image/png'')]])]"

definition example_chunks :: "chunk list" where
  "example_chunks = [FileData example_bin, Padding [0, 0], FileData example_png, Padding [0]]"

fun offset_of :: "json option \<Rightarrow> int option" where
  "offset_of None = Some 0"
| "offset_of (Some (JNum n)) = Some n"
| "offset_of (Some v) = None"

text \<open>
  The second example of the specification: a view \<^verbatim>\<open>{buffer: 1, byteOffset: 5}\<close> where
  buffer 0 takes 8 padded bytes.
\<close>

definition retarget_bin0 :: "byte list" where
  "retarget_bin0 = [1, 2, 3, 4, 5, 6]"

definition retarget_bin1 :: "byte list" where
  "retarget_bin1 = [7, 8, 9, 10, 11, 12, 13]"

definition retarget_node :: node where
  "retarget_node = node_with [(''b0.bin'', retarget_bin0), (''b1.bin'', retarget_bin1)]"

definition retarget_gltf :: "(string \<times> json) list" where
  "retarget_gltf =
     [(''buffers'', JArr [JObj [(''uri'', JStr ''b0.bin'')], JObj [(''uri'', JStr ''b1.bin'')]]),
      (''bufferViews'', JArr [JObj [(''buffer'', JNum 1), (''byteOffset'', JNum 5)]])]"

definition retarget_patched :: "(string \<times> json) list" where
  "retarget_patched =
     [(''buffers'', JArr [JObj [(''byteLength'', JNum 16)]]),
      (''bufferViews'', JArr [JObj [(''buffer'', JNum 0), (''byteOffset'', JNum 13)]])]"

definition retarget_chunks :: "chunk list" where
  "retarget_chunks =
     [FileData retarget_bin0, Padding [0, 0], FileData retarget_bin1, Padding [0]]"

definition missing :: "node \<Rightarrow> json \<Rightarrow> bool" where
  "missing env entry =
     (case external_uri entry of
        Inr (Some uri) \<Rightarrow> (case readFile env uri of None \<Rightarrow> True | Some r \<Rightarrow> False)
      | _ \<Rightarrow> False)"

text \<open>
  The missing-file case of the specification: a buffer that names \<^verbatim>\<open>missing.bin\<close>, a
  view into it, and an image that names a file that is not there either.
\<close>

definition missing_gltf :: "(string \<times> json) list" where
  "missing_gltf =
     [(''buffers'', JArr [JObj [(''uri'', JStr ''missing.bin''), (''byteLength'', JNum 8)]]),
      (''bufferViews'', JArr [JObj [(''buffer'', JNum 0), (''byteOffset'', JNum 4)]]),
      (''images'', JArr [JObj [(''uri'', JStr ''missing.png'')]])]"

definition missing_patched :: "(string \<times> json) list" where
  "missing_patched =
     [(''buffers'', JArr [JObj [(''byteLength'', JNum 0)]]),
      (''bufferViews'', JArr [JObj [(''buffer'', JNum 0), (''byteOffset'', JNum 4)]]),
      (''images'', JArr [JObj [(''uri'', JStr ''missing.png'')]])]"

definition mime_table :: "string \<Rightarrow> string" where
  "mime_table e =
     (if e = ''.jpg'' \<or> e = ''.jpeg'' then ''image/jpeg''
      else if e = ''.png'' then ''image/png''
      else if e = ''.gif'' then ''image/gif''
      else if e = ''.bmp'' then ''image/bmp''
      else if e = ''.webp'' then ''image/webp''
      else ''application/octet-stream'')"

definition example_clean :: "(string \<times> json) list" where
  "example_clean = example_patched @ [(''asset'', default_asset)]"

definition serialized_document :: "node \<Rightarrow> json \<Rightarrow> error + json" where
  "serialized_document env gltfData =
     (case collect env gltfData of
        Inl e \<Rightarrow> Inl e
      | Inr (patched, st) \<Rightarrow> cleanGltf patched)"

definition asset_version :: "json \<Rightarrow> json option" where
  "asset_version doc =
     (case get_prop doc ''asset'' of
        Inr (Some asset) \<Rightarrow> (case get_prop asset ''version'' of Inr v \<Rightarrow> v | Inl e \<Rightarrow> None)
      | _ \<Rightarrow> None)"

definition no_version_gltf :: "(string \<times> json) list" where
  "no_version_gltf = [(''asset'', JObj [(''generator'', JStr ''exporter'')])]"

definition no_asset_gltf :: "(string \<times> json) list" where
  "no_asset_gltf = [(''scenes'', JArr [])]"

definition no_asset_clean :: "(string \<times> json) list" where
  "no_asset_clean = [(''scenes'', JArr []), (''asset'', JObj [(''version'', JStr ''2.0'')])]"

definition with_asset :: "(string \<times> json) list \<Rightarrow> (string \<times> json) list" where
  "with_asset doc =
     (if truthy_opt (map_of doc ''asset'') then doc
      else AList.update ''asset'' (JObj [(''version'', JStr ''2.0'')]) doc)"

text \<open>A document whose only image is a \<^verbatim>\<open>data:\<close> URI, and what is serialized for it.\<close>

definition data_image :: json where
  "data_image = JObj [(''uri'', JStr ''data:image/png;base64,AAAA'')]"

definition data_image_gltf :: "(string \<times> json) list" where
  "data_image_gltf = [(''images'', JArr [data_image])]"

definition data_image_clean :: "(string \<times> json) list" where
  "data_image_clean =
     [(''images'', JArr [data_image]), (''asset'', JObj [(''version'', JStr ''2.0'')])]"

text \<open>A document whose only buffer is a \<^verbatim>\<open>data:\<close> URI, and what is serialized for it.\<close>

definition data_buffer :: json where
  "data_buffer =
     JObj [(''uri'', JStr ''data:application/octet-stream;base64,AAAA''), (''byteLength'', JNum 3)]"

definition data_gltf :: "(string \<times> json) list" where
  "data_gltf = [(''asset'', JObj [(''version'', JStr ''2.0'')]), (''buffers'', JArr [data_buffer])]"

definition data_serialized :: "(string \<times> json) list" where
  "data_serialized =
     [(''asset'', JObj [(''version'', JStr ''2.0'')]),
      (''buffers'', JArr [JObj [(''byteLength'', JNum 0)]])]"

text \<open>A document with no \<^verbatim>\<open>buffers\<close> and one external image, and what is serialized for it.\<close>

definition image_only_gltf :: "(string \<times> json) list" where
  "image_only_gltf = [(''images'', JArr [JObj [(''uri'', JStr ''i.png'')]])]"

definition image_only_clean :: "(string \<times> json) list" where
  "image_only_clean =
     [(''images'', JArr [JObj [(''bufferView'', JNum 0), (''mimeType'', JStr ''image/png'')]]),
      (''bufferViews'',
       JArr [JObj [(''buffer'', JNum 0), (''byteOffset'', JNum 0), (''byteLength'', JNum 7)]]),
      (''asset'', JObj [(''version'', JStr ''2.0'')])]"

text \<open>The same document where the image file exists and has no bytes.\<close>

definition empty_image_node :: node where
  "empty_image_node = node_with [(''i.png'', [])]"

definition empty_image_clean :: "(string \<times> json) list" where
  "empty_image_clean =
     [(''images'', JArr [JObj [(''bufferView'', JNum 0), (''mimeType'', JStr ''image/png'')]]),
      (''bufferViews'',
       JArr [JObj [(''buffer'', JNum 0), (''byteOffset'', JNum 0), (''byteLength'', JNum 0)]]),
      (''asset'', JObj [(''version'', JStr ''2.0'')])]"

fun fresh :: "nat \<Rightarrow> val \<Rightarrow> bool" where
  "fresh n (VRef a) = (n \<le> a)"
| "fresh n v = True"

fun cell_fresh :: "nat \<Rightarrow> cell \<Rightarrow> bool" where
  "cell_fresh n (Object ps) = (\<forall>p \<in> set ps. fresh n (snd p))"
| "cell_fresh n (Array vs) = (\<forall>v \<in> set vs. fresh n v)"

definition separate :: "nat \<Rightarrow> store \<Rightarrow> store \<Rightarrow> bool" where
  "separate n s0 s \<longleftrightarrow>
     n \<le> length s \<and> take n s = take n s0
     \<and> (\<forall>a. n \<le> a \<longrightarrow> a < length s \<longrightarrow> cell_fresh n (s ! a))"

text \<open>The example of the specification, parsed into an empty store.\<close>

definition example_store :: store where
  "example_store =
     [Object [(''uri'', VStr ''a.bin''), (''byteLength'', VNum 10)],
      Array [VRef 0],
      Object [(''buffer'', VNum 0), (''byteLength'', VNum 10)],
      Array [VRef 2],
      Object [(''uri'', VStr ''i.png'')],
      Array [VRef 4],
      Object [(''buffers'', VRef 1), (''bufferViews'', VRef 3), (''images'', VRef 5)]]"

definition example_patched_store :: store where
  "example_patched_store =
     example_store @
     [Object [(''byteLength'', VNum 10)],
      Array [VRef 7],
      Object [(''buffer'', VNum 0), (''byteLength'', VNum 10), (''byteOffset'', VNum 0)],
      Array [VRef 9, VRef 16],
      Object [(''bufferView'', VNum 1), (''mimeType'', VStr ''image/png'')],
      Array [VRef 11],
      Object [(''buffers'', VRef 15), (''bufferViews'', VRef 10), (''images'', VRef 12)],
      Object [(''byteLength'', VNum 20)],
      Array [VRef 14],
      Object [(''buffer'', VNum 0), (''byteOffset'', VNum 12), (''byteLength'', VNum 7)]]"

definition example_final_store :: store where
  "example_final_store =
     example_patched_store @
     [Object [(''byteLength'', VNum 20)],
      Array [VRef 17],
      Object [(''buffer'', VNum 0), (''byteLength'', VNum 10), (''byteOffset'', VNum 0)],
      Object [(''buffer'', VNum 0), (''byteOffset'', VNum 12), (''byteLength'', VNum 7)],
      Array [VRef 19, VRef 20],
      Object [(''bufferView'', VNum 1), (''mimeType'', VStr ''image/png'')],
      Array [VRef 22],
      Object [(''buffers'', VRef 18), (''bufferViews'', VRef 21), (''images'', VRef 23),
              (''asset'', VRef 25)],
      Object [(''version'', VStr ''2.0'')]]"

section \<open>Properties\<close>

subsection \<open>Padding and 32-bit fields\<close>

lemma length_uint32le [simp]: "length (uint32le v) = 4"
  by (simp add: uint32le_def)

lemma padding4_lt: "padding4 n < 4"
  by (simp add: padding4_def)

lemma mod4_cases: "(n::nat) mod 4 = 0 \<or> n mod 4 = 1 \<or> n mod 4 = 2 \<or> n mod 4 = 3"
  by arith

lemma padding4_aligned: "(n + padding4 n) mod 4 = 0"
proof -
  have "(n mod 4 + padding4 n) mod 4 = 0"
    using mod4_cases [of n] unfolding padding4_def by auto
  then show ?thesis by (simp add: mod_add_left_eq)
qed

lemma padding4_zero: "n mod 4 = 0 \<Longrightarrow> padding4 n = 0"
  unfolding padding4_def by simp

lemma padding4_pos_iff: "0 < n + padding4 n \<longleftrightarrow> 0 < n"
  unfolding padding4_def by (cases "n = 0") simp_all

lemma update4:
  "(pre @ a # b # c # d # post)[length pre := w, Suc (length pre) := x,
      Suc (Suc (length pre)) := y, Suc (Suc (Suc (length pre))) := z] = pre @ w # x # y # z # post"
  by (induction pre) simp_all

lemma writeUInt32LE_at:
  assumes "length pre = off" "length old = 4"
  shows "writeUInt32LE (pre @ old @ post) v off =
     (if v < 2 ^ 32 then Inr (pre @ uint32le v @ post) else Inl RangeError)"
proof -
  obtain a b c d where old: "old = [a, b, c, d]"
    using assms(2) by (auto simp: length_Suc_conv numeral_eq_Suc)
  have len: "off + 4 \<le> length (pre @ old @ post)"
    using assms by simp
  have sucs: "off + 1 = Suc off" "off + 2 = Suc (Suc off)" "off + 3 = Suc (Suc (Suc off))"
    by simp_all
  have upd: "(pre @ old @ post)[off := w, Suc off := x, Suc (Suc off) := y, Suc (Suc (Suc off)) := z]
      = pre @ [w, x, y, z] @ post" for w x y z
    unfolding old assms(1) [symmetric] using update4 [of pre a b c d post w x y z] by simp
  have body: "(pre @ old @ post)[off := of_nat v, off + 1 := of_nat (v div 256),
        off + 2 := of_nat (v div 65536), off + 3 := of_nat (v div 16777216)]
      = pre @ uint32le v @ post"
    unfolding sucs uint32le_def by (rule upd)
  show ?thesis
  proof (cases "v < 2 ^ 32")
    case True
    then show ?thesis
      unfolding writeUInt32LE_def body using len by (simp only: simp_thms if_True)
  next
    case False
    then show ?thesis
      unfolding writeUInt32LE_def by (simp only: simp_thms if_False)
  qed
qed

lemma glb_header_eq:
  "glb_header t =
     (if t < 2 ^ 32 then Inr (uint32le 0x46546C67 @ uint32le 2 @ uint32le t) else Inl RangeError)"
proof -
  have r: "replicate 12 (0::byte) = [] @ replicate 4 0 @ replicate 8 0"
    by (simp flip: replicate_add)
  have w1: "writeUInt32LE (replicate 12 0) 0x46546C67 0
      = Inr (uint32le 0x46546C67 @ replicate 4 0 @ replicate 4 0)"
    unfolding r by (subst writeUInt32LE_at) (simp_all flip: replicate_add)
  have w2: "writeUInt32LE (uint32le 0x46546C67 @ replicate 4 0 @ replicate 4 0) 2 4
      = Inr (uint32le 0x46546C67 @ uint32le 2 @ replicate 4 0)"
    by (subst writeUInt32LE_at) simp_all
  have w3: "writeUInt32LE (uint32le 0x46546C67 @ uint32le 2 @ replicate 4 0) t 8 =
     (if t < 2 ^ 32 then Inr (uint32le 0x46546C67 @ uint32le 2 @ uint32le t) else Inl RangeError)"
    using writeUInt32LE_at [of "uint32le 0x46546C67 @ uint32le 2" 8 "replicate 4 0" "[]" t] by simp
  show ?thesis unfolding glb_header_def w1 by (simp add: w2 w3)
qed

lemma chunk_header_eq:
  "chunk_header n ty =
     (if n < 2 ^ 32 \<and> ty < 2 ^ 32 then Inr (uint32le n @ uint32le ty) else Inl RangeError)"
proof -
  have r: "replicate 8 (0::byte) = [] @ replicate 4 0 @ replicate 4 0"
    by (simp flip: replicate_add)
  have w1: "writeUInt32LE (replicate 8 0) n 0
      = (if n < 2 ^ 32 then Inr (uint32le n @ replicate 4 0) else Inl RangeError)"
    unfolding r by (subst writeUInt32LE_at) simp_all
  have w2: "writeUInt32LE (uint32le n @ replicate 4 0) ty 4
      = (if ty < 2 ^ 32 then Inr (uint32le n @ uint32le ty) else Inl RangeError)"
    using writeUInt32LE_at [of "uint32le n" 4 "replicate 4 0" "[]" ty] by simp
  show ?thesis unfolding chunk_header_def w1 by (simp add: w2)
qed

lemma unat_byte: "unat (of_nat n :: byte) = n mod 256"
  by (simp add: unat_of_nat)

lemma le_bytes_sum:
  assumes "v < 2 ^ 32"
  shows "v mod 256 + 256 * (v div 256 mod 256) + 65536 * (v div 65536 mod 256)
        + 16777216 * (v div 16777216 mod 256) = (v::nat)"
proof -
  define a where "a = v div 256"
  define b where "b = a div 256"
  define c where "c = b div 256"
  have b: "v div 65536 = b" unfolding b_def a_def by (simp add: div_mult2_eq)
  have c: "v div 16777216 = c" unfolding c_def b_def a_def by (simp add: div_mult2_eq)
  have "c < 256" using assms unfolding c [symmetric] by (simp add: less_mult_imp_div_less)
  then have c': "c mod 256 = c" by simp
  have 1: "v = v mod 256 + 256 * a" unfolding a_def by simp
  have 2: "a = a mod 256 + 256 * b" unfolding b_def by simp
  have 3: "b = b mod 256 + 256 * c" unfolding c_def by simp
  show ?thesis unfolding b c c' a_def [symmetric] using 1 2 3 by linarith
qed

lemma readUInt32LE_at:
  assumes "v < 2 ^ 32" "length pre = off"
  shows "readUInt32LE (pre @ uint32le v @ post) off = v"
proof -
  have nths: "(pre @ uint32le v @ post) ! off = of_nat v"
    "(pre @ uint32le v @ post) ! (off + 1) = of_nat (v div 256)"
    "(pre @ uint32le v @ post) ! (off + 2) = of_nat (v div 65536)"
    "(pre @ uint32le v @ post) ! (off + 3) = of_nat (v div 16777216)"
    using assms(2) by (simp_all add: nth_append uint32le_def)
  show ?thesis
    unfolding readUInt32LE_def nths unat_byte by (rule le_bytes_sum [OF assms(1)])
qed

lemma length_json_payload:
  "length (json_payload env clean) mod 4 = 0"
  by (simp add: json_payload_def padding4_aligned)

lemma length_bin_payload:
  "length (bin_payload b) mod 4 = 0"
  by (simp add: bin_payload_def padding4_aligned)

lemma bin_payload_Nil_iff: "bin_payload b = [] \<longleftrightarrow> b = []"
  by (auto simp: bin_payload_def padding4_def)

lemma length_container:
  "length (container env clean b t) = container_length env clean b"
  by (simp add: container_def container_length_def)

lemma createGLB_eq:
  assumes "cleanGltf gltfData = Inr clean"
  shows "createGLB env gltfData b =
     (if container_length env clean b < 2 ^ 32
      then Inr (container env clean b (container_length env clean b))
      else Inl RangeError)"
proof (cases "b = []")
  case True
  then show ?thesis
    by (simp add: createGLB_def assms Let_def glb_header_eq chunk_header_eq container_def
        container_length_def json_payload_def bin_payload_def padding4_def)
next
  case False
  then have pos: "0 < length b + padding4 (length b)" by simp
  show ?thesis
    using False pos
    by (simp add: createGLB_def assms Let_def glb_header_eq chunk_header_eq container_def
        container_length_def json_payload_def bin_payload_def)
qed

lemma replicate_small:
  "replicate 1 x = [x]" "replicate 2 x = [x, x]" "replicate 3 x = [x, x, x]"
  by (simp_all add: numeral_2_eq_2 numeral_3_eq_3)

lemma stringify_asset_only: "stringify (node_with []) (JObj [(''asset'', JObj [(''version'', JStr ''2.0'')])]) =
  [123, 34, 97, 115, 115, 101, 116, 34, 58, 123, 34, 118, 101, 114,
      115, 105, 111, 110, 34, 58, 34, 50, 46, 48, 34, 125, 125]"
  by (simp add: node_with_def utf8_def quote_def escape_char_def)

text \<open>
  Claim C1. Whenever \<^verbatim>\<open>createGLB\<close> returns, what it returns is, in order: the 12-byte
  header (magic \<open>0x46546C67\<close>, version 2, total length), the 8-byte JSON chunk header
  (chunk length, type \<open>0x4E4F534A\<close>), the serialized document padded with spaces to a
  multiple of 4, and, only when the binary buffer is not empty, the 8-byte BIN chunk header
  (chunk length, type \<open>0x004E4942\<close>) and the binary buffer padded with zeros to a multiple
  of 4, every field little-endian; the total length written in the header, and read back
  from offset 8, is the number of bytes returned.
\<close>

theorem createGLB_container:
  assumes "createGLB env gltfData binaryBuffer = Inr glb"
    and "cleanGltf gltfData = Inr clean"
  shows "glb = uint32le 0x46546C67 @ uint32le 2 @ uint32le (length glb)
             @ uint32le (length (json_payload env clean)) @ uint32le 0x4E4F534A
             @ json_payload env clean
             @ (if binaryBuffer = [] then []
                else uint32le (length (bin_payload binaryBuffer)) @ uint32le 0x004E4942
                     @ bin_payload binaryBuffer)
       \<and> readUInt32LE glb 8 = length glb
       \<and> length (json_payload env clean) mod 4 = 0
       \<and> length (bin_payload binaryBuffer) mod 4 = 0"
proof -
  let ?n = "container_length env clean binaryBuffer"
  from assms have lt: "?n < 2 ^ 32" and glb: "glb = container env clean binaryBuffer ?n"
    by (simp_all add: createGLB_eq split: if_splits)
  have len: "length glb = ?n"
    unfolding glb by (rule length_container)
  have "readUInt32LE glb 8 = ?n"
    unfolding glb container_def
    using readUInt32LE_at [OF lt, of "uint32le 0x46546C67 @ uint32le 2" 8] by simp
  with len glb show ?thesis
    by (simp add: container_def length_json_payload length_bin_payload)
qed

theorem createGLB_container_witness:
  "createGLB (node_with []) (JObj [(''asset'', JObj [(''version'', JStr ''2.0'')])]) [1, 2, 3, 4, 5]
     = Inr [103, 108, 84, 70, 2, 0, 0, 0, 64, 0, 0, 0, 28, 0, 0, 0, 74, 83, 79,
      78, 123, 34, 97, 115, 115, 101, 116, 34, 58, 123, 34, 118, 101, 114,
      115, 105, 111, 110, 34, 58, 34, 50, 46, 48, 34, 125, 125, 32, 8, 0, 0,
      0, 66, 73, 78, 0, 1, 2, 3, 4, 5, 0, 0, 0]
   \<and> cleanGltf (JObj [(''asset'', JObj [(''version'', JStr ''2.0'')])])
       = Inr (JObj [(''asset'', JObj [(''version'', JStr ''2.0'')])])
   \<and> readUInt32LE [103, 108, 84, 70, 2, 0, 0, 0, 64, 0, 0, 0, 28, 0, 0, 0, 74, 83, 79,
      78, 123, 34, 97, 115, 115, 101, 116, 34, 58, 123, 34, 118, 101, 114,
      115, 105, 111, 110, 34, 58, 34, 50, 46, 48, 34, 125, 125, 32, 8, 0, 0,
      0, 66, 73, 78, 0, 1, 2, 3, 4, 5, 0, 0, 0] 8 =
     length [103, 108, 84, 70, 2, 0, 0, 0, 64, 0, 0, 0, 28, 0, 0, 0, 74, 83, 79,
      78, 123, 34, 97, 115, 115, 101, 116, 34, 58, 123, 34, 118, 101, 114,
      115, 105, 111, 110, 34, 58, 34, 50, 46, 48, 34, 125, 125, 32, 8, 0, 0,
      0, 66, 73, 78, 0, 1, 2, 3, 4, 5, 0, 0, 0 :: byte]"
proof -
  let ?D = "JObj [(''asset'', JObj [(''version'', JStr ''2.0'')])]"
  have h2: "cleanGltf ?D = Inr ?D"
    by (simp add: cleanGltf_def)
  have h1: "createGLB (node_with []) ?D [1, 2, 3, 4, 5]
     = Inr [103, 108, 84, 70, 2, 0, 0, 0, 64, 0, 0, 0, 28, 0, 0, 0, 74, 83, 79,
      78, 123, 34, 97, 115, 115, 101, 116, 34, 58, 123, 34, 118, 101, 114,
      115, 105, 111, 110, 34, 58, 34, 50, 46, 48, 34, 125, 125, 32, 8, 0, 0,
      0, 66, 73, 78, 0, 1, 2, 3, 4, 5, 0, 0, 0]"
    unfolding createGLB_eq [OF h2] container_def container_length_def json_payload_def
      bin_payload_def stringify_asset_only
    by (simp add: padding4_def uint32le_def replicate_small)
  note r = createGLB_container [OF h1 h2, THEN conjunct2, THEN conjunct1]
  from h1 h2 r show ?thesis by (intro conjI)
qed

lemma region_length_simps [simp]:
  "region_length [] = 0"
  "region_length (d # ds) = padded_length (length d) + region_length ds"
  "region_length (ds @ es) = region_length ds + region_length es"
  by (simp_all add: region_length_def)

lemma padded_length_mod4 [simp]: "padded_length n mod 4 = 0"
  by (simp add: padded_length_def padding4_aligned)

lemma region_length_mod4 [simp]: "region_length ds mod 4 = 0"
  by (induction ds) (simp_all add: mod_add_eq [symmetric] del: mod_add_eq)

lemma padding4_add_aligned: "t mod 4 = 0 \<Longrightarrow> padding4 (t + n) = padding4 n"
  unfolding padding4_def by (simp add: mod_add_left_eq [symmetric] del: mod_add_left_eq)

lemma advance_aligned:
  assumes "totalSize st mod 4 = 0"
  shows "advance (length d) (st\<lparr>binaryChunks := binaryChunks st @ [FileData d]\<rparr>)
     = st\<lparr>binaryChunks := binaryChunks st @ segment d,
          totalSize := totalSize st + padded_length (length d)\<rparr>"
  using assms
  by (simp add: advance_def Let_def padding4_add_aligned segment_def padded_length_def)

lemma process_buffer_Inr:
  assumes "process_buffer env i b st = Inr (b', st')" "totalSize st mod 4 = 0"
  shows "case loaded env b of
           None \<Rightarrow> b' = b \<and> st' = st
         | Some d \<Rightarrow> \<exists>doc'. patch_views i (totalSize st) (modifiedGltf st) = Inr doc' \<and>
             st' = \<lparr>modifiedGltf = doc', binaryChunks = binaryChunks st @ segment d,
                     totalSize = totalSize st + padded_length (length d)\<rparr>"
  using assms
  by (auto simp: process_buffer_def loaded_def Let_def advance_def padding4_add_aligned
      segment_def padded_length_def
      split: sum.splits option.splits if_splits)

lemma map_err_length: "map_err f xs = Inr ys \<Longrightarrow> length ys = length xs"
  by (induction xs arbitrary: ys) (auto split: sum.splits)

lemma map_err_nth: "map_err f xs = Inr ys \<Longrightarrow> j < length xs \<Longrightarrow> f (xs ! j) = Inr (ys ! j)"
proof (induction xs arbitrary: ys j)
  case Nil
  then show ?case by simp
next
  case (Cons x xs)
  then show ?case by (cases j) (auto split: sum.splits)
qed

lemma map_err_Inr [simp]: "map_err Inr xs = Inr xs"
  by (induction xs) simp_all

lemma map_err_comp:
  assumes "map_err f xs = Inr ys" "map_err g ys = Inr zs"
  shows "map_err (\<lambda>x. case f x of Inl e \<Rightarrow> Inl e | Inr y \<Rightarrow> g y) xs = Inr zs"
  using assms
proof (induction xs arbitrary: ys zs)
  case Nil
  then show ?case by simp
next
  case (Cons x xs)
  from Cons.prems(1) obtain y ys' where fx: "f x = Inr y" and m: "map_err f xs = Inr ys'"
    and ys: "ys = y # ys'"
    by (auto split: sum.splits)
  from Cons.prems(2) obtain z zs' where gy: "g y = Inr z" and m': "map_err g ys' = Inr zs'"
    and zs: "zs = z # zs'"
    unfolding ys by (auto split: sum.splits)
  from Cons.IH [OF m m'] show ?case
    by (simp add: fx gy zs)
qed

lemma patch_views_array:
  assumes "map_of doc ''bufferViews'' = Some (JArr vs)"
  shows "patch_views i t doc =
     (case map_err (patch_view i t) vs of
        Inl e \<Rightarrow> Inl e
      | Inr vs' \<Rightarrow> Inr (AList.update ''bufferViews'' (JArr vs') doc))"
  by (simp add: patch_views_def assms)

lemma patch_views_other:
  assumes "patch_views i t doc = Inr doc'" "\<And>vs. map_of doc ''bufferViews'' \<noteq> Some (JArr vs)"
  shows "doc' = doc"
  using assms by (auto simp: patch_views_def split: option.splits if_splits json.splits)

lemma buffers_loop_Cons_Inr:
  assumes "buffers_loop env i (b # bs) st = Inr (bs', st')"
  obtains b1 st1 bs1 where "process_buffer env i b st = Inr (b1, st1)"
    "buffers_loop env (Suc i) bs st1 = Inr (bs1, st')" "bs' = b1 # bs1"
  using assms by (auto split: sum.splits)

lemma buffers_loop_chunks:
  assumes "buffers_loop env i bs st = Inr (bs', st')" "totalSize st mod 4 = 0"
  shows "binaryChunks st' = binaryChunks st @ concat (map segment (files env bs))
       \<and> totalSize st' = totalSize st + region_length (files env bs)
       \<and> length bs' = length bs"
  using assms
proof (induction bs arbitrary: i st bs')
  case Nil
  then show ?case by simp
next
  case (Cons b bs)
  from Cons.prems(1) obtain b1 st1 bs1 where
    step: "process_buffer env i b st = Inr (b1, st1)"
    and rest: "buffers_loop env (Suc i) bs st1 = Inr (bs1, st')" and bs': "bs' = b1 # bs1"
    by (rule buffers_loop_Cons_Inr)
  note pb = process_buffer_Inr [OF step Cons.prems(2)]
  show ?case
  proof (cases "loaded env b")
    case None
    with pb have "st1 = st" by simp
    with Cons.IH [OF rest [unfolded this] Cons.prems(2)] None bs' show ?thesis by simp
  next
    case (Some d)
    with pb obtain doc' where st1: "st1 = \<lparr>modifiedGltf = doc',
        binaryChunks = binaryChunks st @ segment d,
        totalSize = totalSize st + padded_length (length d)\<rparr>"
      by auto
    have al: "totalSize st1 mod 4 = 0"
      using Cons.prems(2) by (simp add: st1 mod_add_eq [symmetric] del: mod_add_eq)
    from Cons.IH [OF rest al] Some bs' show ?thesis
      by (simp add: st1)
  qed
qed

lemma buffers_loop_views:
  assumes "buffers_loop env i bs st = Inr (bs', st')" "totalSize st mod 4 = 0"
    and "map_of (modifiedGltf st) ''bufferViews'' = Some (JArr vs)"
  shows "\<exists>vs'. map_err (patch_all env i bs (totalSize st)) vs = Inr vs'
           \<and> modifiedGltf st' = AList.update ''bufferViews'' (JArr vs') (modifiedGltf st)"
  using assms
proof (induction bs arbitrary: i st bs' vs)
  case Nil
  then show ?case by (simp add: update_triv)
next
  case (Cons b bs)
  from Cons.prems(1) obtain b1 st1 bs1 where
    step: "process_buffer env i b st = Inr (b1, st1)"
    and rest: "buffers_loop env (Suc i) bs st1 = Inr (bs1, st')" and bs': "bs' = b1 # bs1"
    by (rule buffers_loop_Cons_Inr)
  note pb = process_buffer_Inr [OF step Cons.prems(2)]
  show ?case
  proof (cases "loaded env b")
    case None
    with pb have "st1 = st" by simp
    with Cons.IH [OF rest [unfolded this] Cons.prems(2) Cons.prems(3)] None show ?thesis by simp
  next
    case (Some d)
    with pb obtain doc' where pv: "patch_views i (totalSize st) (modifiedGltf st) = Inr doc'"
      and st1: "st1 = \<lparr>modifiedGltf = doc',
        binaryChunks = binaryChunks st @ segment d,
        totalSize = totalSize st + padded_length (length d)\<rparr>"
      by auto
    from pv obtain vs1 where vs1: "map_err (patch_view i (totalSize st)) vs = Inr vs1"
      and doc': "doc' = AList.update ''bufferViews'' (JArr vs1) (modifiedGltf st)"
      by (auto simp: patch_views_array [OF Cons.prems(3)] split: sum.splits)
    have al: "totalSize st1 mod 4 = 0"
      using Cons.prems(2) by (simp add: st1 mod_add_eq [symmetric] del: mod_add_eq)
    have m1: "map_of (modifiedGltf st1) ''bufferViews'' = Some (JArr vs1)"
      by (simp add: st1 doc' update_conv')
    from Cons.IH [OF rest al m1] obtain vs' where
      vs': "map_err (patch_all env (Suc i) bs (totalSize st1)) vs1 = Inr vs'"
      and d': "modifiedGltf st' = AList.update ''bufferViews'' (JArr vs') (modifiedGltf st1)"
      by blast
    have "patch_all env i (b # bs) (totalSize st) =
        (\<lambda>x. case patch_view i (totalSize st) x of Inl e \<Rightarrow> Inl e
              | Inr y \<Rightarrow> patch_all env (Suc i) bs (totalSize st1) y)"
      by (rule ext) (simp add: Some st1 cong: sum.case_cong)
    then have "map_err (patch_all env i (b # bs) (totalSize st)) vs = Inr vs'"
      using map_err_comp [OF vs1 vs'] by simp
    moreover have "modifiedGltf st' = AList.update ''bufferViews'' (JArr vs') (modifiedGltf st)"
      by (simp add: d' st1 doc')
    ultimately show ?thesis by blast
  qed
qed

lemma buffers_loop_no_views:
  assumes "buffers_loop env i bs st = Inr (bs', st')" "totalSize st mod 4 = 0"
    and "\<And>vs. map_of (modifiedGltf st) ''bufferViews'' \<noteq> Some (JArr vs)"
  shows "modifiedGltf st' = modifiedGltf st"
  using assms
proof (induction bs arbitrary: i st bs')
  case Nil
  then show ?case by simp
next
  case (Cons b bs)
  from Cons.prems(1) obtain b1 st1 bs1 where
    step: "process_buffer env i b st = Inr (b1, st1)"
    and rest: "buffers_loop env (Suc i) bs st1 = Inr (bs1, st')"
    by (rule buffers_loop_Cons_Inr)
  note pb = process_buffer_Inr [OF step Cons.prems(2)]
  show ?case
  proof (cases "loaded env b")
    case None
    with pb have "st1 = st" by simp
    with Cons.IH [OF rest [unfolded this] Cons.prems(2) Cons.prems(3)] show ?thesis by simp
  next
    case (Some d)
    with pb obtain doc' where pv: "patch_views i (totalSize st) (modifiedGltf st) = Inr doc'"
      and st1: "st1 = \<lparr>modifiedGltf = doc',
        binaryChunks = binaryChunks st @ segment d,
        totalSize = totalSize st + padded_length (length d)\<rparr>"
      by auto
    have doc': "doc' = modifiedGltf st"
      using patch_views_other [OF pv] Cons.prems(3) by blast
    have al: "totalSize st1 mod 4 = 0"
      using Cons.prems(2) by (simp add: st1 mod_add_eq [symmetric] del: mod_add_eq)
    have "modifiedGltf st' = modifiedGltf st1"
      using Cons.prems(3) by (intro Cons.IH [OF rest al]) (simp add: st1 doc')
    then show ?thesis by (simp add: st1 doc')
  qed
qed

lemma external_uri_Some_obj:
  "external_uri entry = Inr (Some uri) \<Longrightarrow> \<exists>kvs. entry = JObj kvs \<and> map_of kvs ''uri'' = Some (JStr uri)"
  by (cases entry) (auto simp: external_uri_def split: option.splits if_splits json.splits)

lemma loaded_Some_obj:
  "loaded env entry = Some d \<Longrightarrow> \<exists>kvs. entry = JObj kvs"
  using external_uri_Some_obj
  by (fastforce simp: loaded_def split: sum.splits option.splits)

lemma process_image_Inr:
  assumes "process_image env img st = Inr (img', st')" "totalSize st mod 4 = 0"
  shows "case loaded env img of
           None \<Rightarrow> img' = img \<and> st' = st
         | Some d \<Rightarrow>
             img' = embedded (getMimeType (extname env (the_uri img)))
                      (length (entries_of (map_of (modifiedGltf st) ''bufferViews''))) img
           \<and> st' = \<lparr>modifiedGltf = AList.update ''bufferViews''
                        (JArr (entries_of (map_of (modifiedGltf st) ''bufferViews'')
                                 @ [image_view (totalSize st) (length d)]))
                        (modifiedGltf st),
                     binaryChunks = binaryChunks st @ segment d,
                     totalSize = totalSize st + padded_length (length d)\<rparr>"
proof (cases "loaded env img")
  case None
  with assms(1) show ?thesis
    by (auto simp: process_image_def loaded_def split: sum.splits option.splits)
next
  case (Some d)
  then obtain uri where u: "external_uri img = Inr (Some uri)" and r: "readFile env uri = Some (Inr d)"
    by (auto simp: loaded_def split: sum.splits option.splits)
  from external_uri_Some_obj [OF u] obtain kvs where img: "img = JObj kvs" by blast
  have tu: "the_uri img = uri" by (simp add: the_uri_def u)
  from assms(1) have e: "embed_image env uri d img st = Inr (img', st')"
    by (simp add: process_image_def u r)
  show ?thesis
  proof (cases "truthy_opt (map_of (modifiedGltf st) ''bufferViews'')")
    case True
    with e obtain vs where vs: "map_of (modifiedGltf st) ''bufferViews'' = Some (JArr vs)"
      by (auto simp: embed_image_def Let_def split: option.splits json.splits)
    show ?thesis
      unfolding Some option.case tu using e assms(2) vs
      by (auto simp: embed_image_def Let_def img image_view_def
          advance_def padding4_add_aligned segment_def padded_length_def)
  next
    case False
    then have en: "entries_of (map_of (modifiedGltf st) ''bufferViews'') = []"
      by (cases "map_of (modifiedGltf st) ''bufferViews''" rule: entries_of.cases) auto
    show ?thesis
      unfolding Some option.case tu en using e assms(2) False
      by (auto simp: embed_image_def Let_def img image_view_def update_conv'
          advance_def padding4_add_aligned segment_def padded_length_def)
  qed
qed

lemma images_loop_Cons_Inr:
  assumes "images_loop env (img # imgs) st = Inr (imgs', st')"
  obtains img1 st1 imgs1 where "process_image env img st = Inr (img1, st1)"
    "images_loop env imgs st1 = Inr (imgs1, st')" "imgs' = img1 # imgs1"
  using assms by (auto split: sum.splits)

lemma image_views_no_files: "files env imgs = [] \<Longrightarrow> image_views env off imgs = []"
  by (induction imgs) (auto split: option.splits)

lemma patched_images_no_files: "files env imgs = [] \<Longrightarrow> patched_images env idx imgs = imgs"
  by (induction imgs) (auto split: option.splits)

lemma length_image_views: "length (image_views env off imgs) = length (files env imgs)"
  by (induction imgs arbitrary: off) (auto split: option.splits)

lemma images_loop_closed:
  assumes "images_loop env imgs st = Inr (imgs', st')" "totalSize st mod 4 = 0"
  shows "imgs' = patched_images env (length (entries_of (map_of (modifiedGltf st) ''bufferViews''))) imgs
       \<and> binaryChunks st' = binaryChunks st @ concat (map segment (files env imgs))
       \<and> totalSize st' = totalSize st + region_length (files env imgs)
       \<and> modifiedGltf st' =
           (if files env imgs = [] then modifiedGltf st
            else AList.update ''bufferViews''
                   (JArr (entries_of (map_of (modifiedGltf st) ''bufferViews'')
                            @ image_views env (totalSize st) imgs))
                   (modifiedGltf st))"
  using assms
proof (induction imgs arbitrary: st imgs')
  case Nil
  then show ?case by simp
next
  case (Cons img imgs)
  from Cons.prems(1) obtain img1 st1 imgs1 where
    step: "process_image env img st = Inr (img1, st1)"
    and rest: "images_loop env imgs st1 = Inr (imgs1, st')" and imgs': "imgs' = img1 # imgs1"
    by (rule images_loop_Cons_Inr)
  note pi = process_image_Inr [OF step Cons.prems(2)]
  show ?case
  proof (cases "loaded env img")
    case None
    with pi have "st1 = st" "img1 = img" by simp_all
    with Cons.IH [OF rest [unfolded this] Cons.prems(2)] None imgs' show ?thesis by simp
  next
    case (Some d)
    let ?vs = "entries_of (map_of (modifiedGltf st) ''bufferViews'')"
    from pi Some have img1: "img1 = embedded (getMimeType (extname env (the_uri img))) (length ?vs) img"
      and st1: "st1 = \<lparr>modifiedGltf = AList.update ''bufferViews''
                        (JArr (?vs @ [image_view (totalSize st) (length d)])) (modifiedGltf st),
                     binaryChunks = binaryChunks st @ segment d,
                     totalSize = totalSize st + padded_length (length d)\<rparr>"
      by simp_all
    have al: "totalSize st1 mod 4 = 0"
      using Cons.prems(2) by (simp add: st1 mod_add_eq [symmetric] del: mod_add_eq)
    have vs1: "entries_of (map_of (modifiedGltf st1) ''bufferViews'')
        = ?vs @ [image_view (totalSize st) (length d)]"
      by (simp add: st1 update_conv')
    note ih = Cons.IH [OF rest al, unfolded vs1]
    show ?thesis
    proof (cases "files env imgs = []")
      case True
      with ih Some imgs' img1 show ?thesis
        by (simp add: st1 image_views_no_files)
    next
      case False
      with ih Some imgs' img1 show ?thesis
        by (simp add: st1)
    qed
  qed
qed

lemma map_of_set_views:
  "map_of (set_views vs' doc) k =
     (if k = ''bufferViews''
      then (case map_of doc ''bufferViews'' of Some (JArr vs) \<Rightarrow> Some (JArr vs') | v \<Rightarrow> v)
      else map_of doc k)"
  by (auto simp: set_views_def update_conv' split: option.splits json.splits)

lemma map_of_collapse_buffers:
  "map_of (collapse_buffers c t doc) k =
     (if c \<and> k = ''buffers'' then Some (collapsed t) else map_of doc k)"
  by (simp add: collapse_buffers_def update_conv')

lemma map_of_add_image_views:
  "map_of (add_image_views new vs doc) k =
     (if new \<noteq> [] \<and> k = ''bufferViews'' then Some (JArr (vs @ new)) else map_of doc k)"
  by (simp add: add_image_views_def update_conv')

lemma map_of_set_images:
  "map_of (set_images imgs' doc) k =
     (if k = ''images''
      then (case map_of doc ''images'' of Some (JArr imgs) \<Rightarrow> Some (JArr imgs') | v \<Rightarrow> v)
      else map_of doc k)"
  by (auto simp: set_images_def update_conv' split: option.splits json.splits)

lemmas map_of_stages =
  map_of_set_views map_of_collapse_buffers map_of_add_image_views map_of_set_images

lemma entries_of_falsy: "\<not> truthy_opt v \<Longrightarrow> entries_of v = []"
  by (cases v rule: entries_of.cases) auto

lemma has_entries_falsy: "\<not> truthy_opt v \<Longrightarrow> \<not> has_entries v"
  by (cases v rule: has_entries.cases) auto

lemma patch_all_Nil: "map_err (patch_all env i [] t) vs = Inr vs"
proof -
  have "patch_all env i [] t = Inr" by (rule ext) simp
  then show ?thesis by simp
qed

lemma set_views_triv: "set_views (entries_of (map_of doc ''bufferViews'')) doc = doc"
  by (auto simp: set_views_def split: option.splits json.splits simp: update_triv)

lemma set_views_not_array:
  "(\<And>vs. map_of doc ''bufferViews'' \<noteq> Some (JArr vs)) \<Longrightarrow> set_views vs' doc = doc"
  by (auto simp: set_views_def split: option.splits json.splits)

lemma set_views_array:
  "map_of doc ''bufferViews'' = Some (JArr vs) \<Longrightarrow>
   set_views vs' doc = AList.update ''bufferViews'' (JArr vs') doc"
  by (simp add: set_views_def)

lemma entries_of_not_array: "(\<And>xs. v \<noteq> Some (JArr xs)) \<Longrightarrow> entries_of v = []"
  by (cases v rule: entries_of.cases) auto

lemma convert_buffers_no_entries:
  assumes "entries_of (map_of (modifiedGltf st) ''buffers'') = []"
    and "binaryChunks st1 = binaryChunks st" "totalSize st1 = totalSize st"
    and "modifiedGltf st1 =
          collapse_buffers (has_entries (map_of (modifiedGltf st) ''buffers'')) (totalSize st)
            (modifiedGltf st)"
  shows "\<exists>vs'. map_err (patch_all env 0 (entries_of (map_of (modifiedGltf st) ''buffers''))
                   (totalSize st)) (entries_of (map_of (modifiedGltf st) ''bufferViews'')) = Inr vs'
     \<and> binaryChunks st1 = binaryChunks st
           @ concat (map segment (files env (entries_of (map_of (modifiedGltf st) ''buffers''))))
     \<and> totalSize st1 = totalSize st
           + region_length (files env (entries_of (map_of (modifiedGltf st) ''buffers'')))
     \<and> modifiedGltf st1 =
          collapse_buffers (has_entries (map_of (modifiedGltf st) ''buffers'')) (totalSize st1)
            (set_views vs' (modifiedGltf st))"
  apply (rule exI [of _ "entries_of (map_of (modifiedGltf st) ''bufferViews'')"])
  using assms by (simp add: patch_all_Nil set_views_triv)

lemma convert_buffers_closed:
  assumes "convert_buffers env st = Inr st1" "totalSize st mod 4 = 0"
  shows "\<exists>vs'. map_err (patch_all env 0 (entries_of (map_of (modifiedGltf st) ''buffers''))
                   (totalSize st)) (entries_of (map_of (modifiedGltf st) ''bufferViews'')) = Inr vs'
     \<and> binaryChunks st1 = binaryChunks st
           @ concat (map segment (files env (entries_of (map_of (modifiedGltf st) ''buffers''))))
     \<and> totalSize st1 = totalSize st
           + region_length (files env (entries_of (map_of (modifiedGltf st) ''buffers'')))
     \<and> modifiedGltf st1 =
          collapse_buffers (has_entries (map_of (modifiedGltf st) ''buffers'')) (totalSize st1)
            (set_views vs' (modifiedGltf st))"
proof (cases "map_of (modifiedGltf st) ''buffers''")
  case None
  with assms(1) have "st1 = st" by (simp add: convert_buffers_def)
  with None show ?thesis
    by (intro convert_buffers_no_entries) (simp_all add: collapse_buffers_def)
next
  case (Some b)
  show ?thesis
  proof (cases "truthy b")
    case False
    with Some assms have "st1 = st" by (simp add: convert_buffers_def)
    moreover from False Some have "entries_of (map_of (modifiedGltf st) ''buffers'') = []"
      "\<not> has_entries (map_of (modifiedGltf st) ''buffers'')"
      using entries_of_falsy [of "Some b"] has_entries_falsy [of "Some b"] by simp_all
    ultimately show ?thesis
      by (intro convert_buffers_no_entries) (simp_all add: collapse_buffers_def)
  next
    case True
    show ?thesis
    proof (cases b)
      case (JArr bs)
      with assms(1) Some obtain bs' st' where
        loop: "buffers_loop env 0 bs st = Inr (bs', st')"
        and st1: "st1 = st'\<lparr>modifiedGltf := AList.update ''buffers''
             (if length bs' > 0 then collapsed (totalSize st') else JArr bs') (modifiedGltf st')\<rparr>"
        by (auto simp: convert_buffers_def split: sum.splits)
      note ch = buffers_loop_chunks [OF loop assms(2)]
      have "\<exists>vs'. map_err (patch_all env 0 bs (totalSize st))
            (entries_of (map_of (modifiedGltf st) ''bufferViews'')) = Inr vs'
          \<and> modifiedGltf st' = set_views vs' (modifiedGltf st)"
      proof (cases "\<exists>vs. map_of (modifiedGltf st) ''bufferViews'' = Some (JArr vs)")
        case True
        then obtain vs where vs: "map_of (modifiedGltf st) ''bufferViews'' = Some (JArr vs)" by blast
        from buffers_loop_views [OF loop assms(2) vs] vs show ?thesis
          by (auto simp: set_views_array)
      next
        case False
        then have nv: "\<And>vs. map_of (modifiedGltf st) ''bufferViews'' \<noteq> Some (JArr vs)" by blast
        from buffers_loop_no_views [OF loop assms(2) nv] have "modifiedGltf st' = modifiedGltf st" .
        with nv show ?thesis
          by (simp add: entries_of_not_array set_views_not_array)
      qed
      then obtain vs' where
        m: "map_err (patch_all env 0 bs (totalSize st))
            (entries_of (map_of (modifiedGltf st) ''bufferViews'')) = Inr vs'"
        and d: "modifiedGltf st' = set_views vs' (modifiedGltf st)" by blast
      have b': "map_of (modifiedGltf st') ''buffers'' = Some (JArr bs)"
        by (simp add: d map_of_set_views Some JArr)
      have "modifiedGltf st1 = collapse_buffers (has_entries (Some (JArr bs))) (totalSize st1)
          (set_views vs' (modifiedGltf st))"
      proof (cases bs)
        case Nil
        with ch have "bs' = []" by simp
        with Nil b' show ?thesis
          by (simp add: st1 collapse_buffers_def update_triv d)
      next
        case (Cons b0 rest)
        with ch have "length bs' > 0" by simp
        with Cons show ?thesis by (simp add: st1 collapse_buffers_def d)
      qed
      with m ch show ?thesis by (simp add: Some JArr st1)
    next
      case (JStr s)
      with True obtain c cs where s: "s = c # cs" by (cases s) auto
      from assms(1) Some JStr True have st1: "st1 = st\<lparr>modifiedGltf :=
          AList.update ''buffers'' (collapsed (totalSize st)) (modifiedGltf st)\<rparr>"
        by (simp add: convert_buffers_def)
      show ?thesis
        using Some JStr s st1
        by (intro convert_buffers_no_entries) (simp_all add: collapse_buffers_def)
    next
      case JNull with True show ?thesis by simp
    next
      case (JBool x)
      with assms(1) Some True have "st1 = st" by (simp add: convert_buffers_def)
      with Some JBool show ?thesis
        by (intro convert_buffers_no_entries) (simp_all add: collapse_buffers_def)
    next
      case (JNum n)
      with assms(1) Some True have "st1 = st" by (simp add: convert_buffers_def)
      with Some JNum show ?thesis
        by (intro convert_buffers_no_entries) (simp_all add: collapse_buffers_def)
    next
      case (JObj kvs)
      with assms(1) Some True have "st1 = st"
        by (simp add: convert_buffers_def split: option.splits)
      with Some JObj show ?thesis
        by (intro convert_buffers_no_entries) (simp_all add: collapse_buffers_def)
    qed
  qed
qed

lemma image_views_Nil_iff: "image_views env off imgs = [] \<longleftrightarrow> files env imgs = []"
  using length_image_views [of env off imgs] by (metis length_0_conv)

lemma convert_images_closed:
  assumes "convert_images env st = Inr st2" "totalSize st mod 4 = 0"
  shows "binaryChunks st2 = binaryChunks st
           @ concat (map segment (files env (entries_of (map_of (modifiedGltf st) ''images''))))
     \<and> totalSize st2 = totalSize st
           + region_length (files env (entries_of (map_of (modifiedGltf st) ''images'')))
     \<and> modifiedGltf st2 =
          set_images
            (patched_images env (length (entries_of (map_of (modifiedGltf st) ''bufferViews'')))
               (entries_of (map_of (modifiedGltf st) ''images'')))
            (add_image_views
               (image_views env (totalSize st) (entries_of (map_of (modifiedGltf st) ''images'')))
               (entries_of (map_of (modifiedGltf st) ''bufferViews''))
               (modifiedGltf st))"
proof (cases "\<exists>imgs. map_of (modifiedGltf st) ''images'' = Some (JArr imgs)")
  case True
  then obtain imgs where I: "map_of (modifiedGltf st) ''images'' = Some (JArr imgs)" by blast
  with assms(1) obtain imgs' st' where
    loop: "images_loop env imgs st = Inr (imgs', st')"
    and st2: "st2 = st'\<lparr>modifiedGltf := AList.update ''images'' (JArr imgs') (modifiedGltf st')\<rparr>"
    by (auto simp: convert_images_def split: sum.splits)
  note il = images_loop_closed [OF loop assms(2)]
  from il have d': "modifiedGltf st' = add_image_views (image_views env (totalSize st) imgs)
      (entries_of (map_of (modifiedGltf st) ''bufferViews'')) (modifiedGltf st)"
    by (simp add: add_image_views_def image_views_Nil_iff)
  have "map_of (modifiedGltf st') ''images'' = Some (JArr imgs)"
    by (simp add: d' map_of_add_image_views I)
  then have "AList.update ''images'' (JArr imgs') (modifiedGltf st') = set_images imgs' (modifiedGltf st')"
    by (simp add: set_images_def)
  with il show ?thesis by (simp add: st2 I d')
next
  case False
  then have e: "entries_of (map_of (modifiedGltf st) ''images'') = []"
    by (intro entries_of_not_array) blast
  from False assms(1) have "st2 = st"
    by (auto simp: convert_images_def split: option.splits json.splits if_splits)
  moreover from False have "set_images imgs' (modifiedGltf st) = modifiedGltf st" for imgs'
    by (auto simp: set_images_def split: option.splits json.splits)
  ultimately show ?thesis by (simp add: e add_image_views_def)
qed

lemma update_final_size_collapsed:
  assumes "map_of (modifiedGltf st) ''buffers'' = Some (collapsed t)"
  shows "update_final_size st = Inr (st\<lparr>modifiedGltf :=
           AList.update ''buffers'' (collapsed (totalSize st)) (modifiedGltf st)\<rparr>)"
  using assms by (simp add: update_final_size_def collapsed_def)

lemma update_final_size_none:
  assumes "map_of (modifiedGltf st) ''buffers'' = v" "\<not> has_entries v"
  shows "update_final_size st = Inr st"
  using assms by (cases v rule: has_entries.cases) (auto simp: update_final_size_def)

lemma collect_closed:
  assumes "collect env (JObj doc) = Inr (patched, st)"
  shows "\<exists>vs'. map_err (patch_all env 0 (entries_of (map_of doc ''buffers'')) 0)
                 (entries_of (map_of doc ''bufferViews'')) = Inr vs'
     \<and> patched = JObj (patched_document env doc vs')
     \<and> modifiedGltf st = patched_document env doc vs'
     \<and> binaryChunks st = concat (map segment
           (files env (entries_of (map_of doc ''buffers''))
            @ files env (entries_of (map_of doc ''images''))))
     \<and> totalSize st = region_length
           (files env (entries_of (map_of doc ''buffers''))
            @ files env (entries_of (map_of doc ''images'')))"
proof -
  let ?st0 = "\<lparr>modifiedGltf = doc, binaryChunks = [], totalSize = 0\<rparr>"
  let ?c = "has_entries (map_of doc ''buffers'')"
  from assms obtain st1 st2 where
    c1: "convert_buffers env ?st0 = Inr st1"
    and c2: "convert_images env st1 = Inr st2"
    and c3: "update_final_size st2 = Inr st"
    and p: "patched = JObj (modifiedGltf st)"
    by (auto simp: collect_def split: sum.splits)
  have "totalSize ?st0 mod 4 = 0" by simp
  from convert_buffers_closed [OF c1 this] obtain vs' where
    m: "map_err (patch_all env 0 (entries_of (map_of doc ''buffers'')) 0)
          (entries_of (map_of doc ''bufferViews'')) = Inr vs'"
    and ch1: "binaryChunks st1 = concat (map segment (files env (entries_of (map_of doc ''buffers''))))"
    and t1: "totalSize st1 = region_length (files env (entries_of (map_of doc ''buffers'')))"
    and d1: "modifiedGltf st1 = collapse_buffers ?c (totalSize st1) (set_views vs' doc)"
    by auto
  have al: "totalSize st1 mod 4 = 0" by (simp add: t1)
  have "length vs' = length (entries_of (map_of doc ''bufferViews''))"
    using m by (rule map_err_length)
  then have v1: "entries_of (map_of (modifiedGltf st1) ''bufferViews'') = vs'"
    by (cases "map_of doc ''bufferViews''" rule: entries_of.cases)
      (simp_all add: d1 map_of_stages)
  have i1: "map_of (modifiedGltf st1) ''images'' = map_of doc ''images''"
    by (simp add: d1 map_of_stages)
  note ci = convert_images_closed [OF c2 al, unfolded v1 i1]
  from ci have ch2: "binaryChunks st2 = binaryChunks st1
           @ concat (map segment (files env (entries_of (map_of doc ''images''))))"
    and t2: "totalSize st2 = totalSize st1
           + region_length (files env (entries_of (map_of doc ''images'')))"
    and d2: "modifiedGltf st2 =
          set_images (patched_images env (length vs') (entries_of (map_of doc ''images'')))
            (add_image_views (image_views env (totalSize st1) (entries_of (map_of doc ''images'')))
               vs' (modifiedGltf st1))"
    by blast+
  have b2: "map_of (modifiedGltf st2) ''buffers'' =
      (if ?c then Some (collapsed (totalSize st1)) else map_of doc ''buffers'')"
    by (simp add: d2 d1 map_of_stages)
  have st: "st = st2\<lparr>modifiedGltf := collapse_buffers ?c (totalSize st2) (modifiedGltf st2)\<rparr>"
  proof (cases ?c)
    case True
    with b2 c3 show ?thesis by (simp add: update_final_size_collapsed collapse_buffers_def)
  next
    case False
    with b2 c3 update_final_size_none [of st2 "map_of doc ''buffers''"] show ?thesis
      by (simp add: collapse_buffers_def)
  qed
  have "modifiedGltf st = patched_document env doc vs'"
    by (simp add: st patched_document_def Let_def d2 d1 t1 t2)
  moreover have "binaryChunks st = concat (map segment
           (files env (entries_of (map_of doc ''buffers''))
            @ files env (entries_of (map_of doc ''images''))))"
    by (simp add: st ch1 ch2)
  moreover have "totalSize st = region_length
           (files env (entries_of (map_of doc ''buffers''))
            @ files env (entries_of (map_of doc ''images'')))"
    by (simp add: st t1 t2)
  ultimately show ?thesis using m p by simp
qed

lemma patched_document_bufferViews:
  "map_of (patched_document env doc vs') ''bufferViews'' =
     (if files env (entries_of (map_of doc ''images'')) = []
      then (case map_of doc ''bufferViews'' of Some (JArr vs) \<Rightarrow> Some (JArr vs') | v \<Rightarrow> v)
      else Some (JArr (vs' @ image_views env
                  (region_length (files env (entries_of (map_of doc ''buffers''))))
                  (entries_of (map_of doc ''images'')))))"
  by (simp add: patched_document_def Let_def map_of_stages image_views_Nil_iff)

lemma patched_document_images:
  "map_of (patched_document env doc vs') ''images'' =
     (case map_of doc ''images'' of
        Some (JArr xs) \<Rightarrow> Some (JArr (patched_images env (length vs') xs))
      | v \<Rightarrow> v)"
  by (simp add: patched_document_def Let_def map_of_stages split: option.splits json.splits)

lemma patched_document_buffers:
  "map_of (patched_document env doc vs') ''buffers'' =
     (if has_entries (map_of doc ''buffers'')
      then Some (collapsed (region_length (files env (entries_of (map_of doc ''buffers''))
                                            @ files env (entries_of (map_of doc ''images'')))))
      else map_of doc ''buffers'')"
  by (simp add: patched_document_def Let_def map_of_stages)

lemma patched_document_other:
  assumes "k \<noteq> ''buffers''" "k \<noteq> ''bufferViews''" "k \<noteq> ''images''"
  shows "map_of (patched_document env doc vs') k = map_of doc k"
  using assms by (simp add: patched_document_def Let_def map_of_stages)

lemma round_up4_eq: "round_up4 n = n + padding4 n"
proof -
  define q where "q = n div 4"
  define r where "r = n mod 4"
  have n: "n = 4 * q + r" by (simp add: q_def r_def)
  have m: "n mod 4 = r" by (simp add: r_def)
  have d: "(n + 3) div 4 = q + (r + 3) div 4"
    unfolding n by (simp add: add.assoc)
  have "r = 0 \<or> r = 1 \<or> r = 2 \<or> r = 3" unfolding r_def by (rule mod4_cases)
  then have "(q + (r + 3) div 4) * 4 = 4 * q + r + (4 - r) mod 4"
    by (elim disjE) simp_all
  then show ?thesis
    unfolding round_up4_def padding4_def d m by (simp add: n)
qed

lemma Buffer_concat_simps [simp]:
  "Buffer_concat [] = []"
  "Buffer_concat (c # cs) = chunk_bytes c @ Buffer_concat cs"
  "Buffer_concat (cs @ ds) = Buffer_concat cs @ Buffer_concat ds"
  by (simp_all add: Buffer_concat_def)

lemma Buffer_concat_segment [simp]: "Buffer_concat (segment d) = padded d"
  by (simp add: segment_def padded_def)

lemma length_padded [simp]: "length (padded d) = padded_length (length d)"
  by (simp add: padded_def padded_length_def)

lemma Buffer_concat_segments:
  "Buffer_concat (concat (map segment ds)) = concat (map padded ds)"
  by (induction ds) simp_all

lemma length_concat_padded [simp]: "length (concat (map padded ds)) = region_length ds"
  by (induction ds) simp_all

lemma segments_append:
  "segments off (cs @ ds) = segments off cs @ segments (off + length (Buffer_concat cs)) ds"
  by (induction off cs rule: segments.induct) (simp_all add: add.assoc)

lemma segments_segment: "segments off (segment d) = [(off, d)]"
  by (simp add: segment_def)

lemma segments_region: "segments off (concat (map segment ds)) = layout off ds"
  by (induction ds arbitrary: off) (simp_all add: segments_append segments_segment)

lemma length_layout [simp]: "length (layout off ds) = length ds"
  by (induction ds arbitrary: off) simp_all

lemma layout_nth:
  "k < length ds \<Longrightarrow> layout off ds ! k = (off + region_length (take k ds), ds ! k)"
proof (induction ds arbitrary: off k)
  case Nil
  then show ?case by simp
next
  case (Cons d ds)
  then show ?case by (cases k) (simp_all add: add.assoc)
qed

lemma region_length_take_Suc:
  "k < length ds \<Longrightarrow>
   region_length (take (Suc k) ds) = region_length (take k ds) + padded_length (length (ds ! k))"
  by (simp add: take_Suc_conv_app_nth)

lemma region_data:
  assumes "k < length ds"
  shows "take (length (ds ! k)) (drop (region_length (take k ds)) (concat (map padded ds))) = ds ! k"
proof -
  have "ds = take k ds @ ds ! k # drop (Suc k) ds"
    using assms by (simp add: id_take_nth_drop [symmetric])
  then have "concat (map padded ds) =
      concat (map padded (take k ds)) @ padded (ds ! k) @ concat (map padded (drop (Suc k) ds))"
    by (metis concat.simps(2) concat_append list.simps(9) map_append)
  then show ?thesis by (simp add: padded_def)
qed

text \<open>
  Claim C2. Whenever the two loops return, the pieces pushed to \<^verbatim>\<open>binaryChunks\<close>, read as
  segments (a piece of data, with the zero padding that follows it, if any), lie in the
  concatenated binary region as the claim says: every segment starts at the end of the
  segment before it rounded up to a multiple of 4, every segment starts at a multiple
  of 4, and the region holds the bytes of the segment at that offset.
\<close>

theorem segment_offsets_aligned:
  assumes "collect env gltfData = Inr (patched, st)"
  shows "(\<forall>k. Suc k < length (segments 0 (binaryChunks st)) \<longrightarrow>
            fst (segments 0 (binaryChunks st) ! Suc k)
              = round_up4 (fst (segments 0 (binaryChunks st) ! k)
                            + length (snd (segments 0 (binaryChunks st) ! k))))
       \<and> (\<forall>k. k < length (segments 0 (binaryChunks st)) \<longrightarrow>
            fst (segments 0 (binaryChunks st) ! k) mod 4 = 0
          \<and> take (length (snd (segments 0 (binaryChunks st) ! k)))
               (drop (fst (segments 0 (binaryChunks st) ! k)) (Buffer_concat (binaryChunks st)))
              = snd (segments 0 (binaryChunks st) ! k))"
proof -
  have "\<exists>ds. binaryChunks st = concat (map segment ds)"
  proof (cases gltfData)
    case (JObj doc)
    with collect_closed [of env doc patched st] assms show ?thesis by blast
  qed (use assms in \<open>auto simp: collect_def intro: exI [of _ "[]"]\<close>)
  then obtain ds where ch: "binaryChunks st = concat (map segment ds)" by blast
  have segs: "segments 0 (binaryChunks st) = layout 0 ds"
    by (simp add: ch segments_region)
  have bc: "Buffer_concat (binaryChunks st) = concat (map padded ds)"
    by (simp add: ch Buffer_concat_segments)
  have 1: "fst (layout 0 ds ! Suc k) = round_up4 (fst (layout 0 ds ! k) + length (snd (layout 0 ds ! k)))"
    if "Suc k < length ds" for k
  proof -
    have al: "region_length (take k ds) mod 4 = 0" by simp
    have "round_up4 (region_length (take k ds) + length (ds ! k))
        = region_length (take k ds) + padded_length (length (ds ! k))"
      unfolding round_up4_eq padded_length_def using padding4_add_aligned [OF al] by simp
    with that show ?thesis
      by (simp add: layout_nth region_length_take_Suc)
  qed
  have 2: "fst (layout 0 ds ! k) mod 4 = 0
      \<and> take (length (snd (layout 0 ds ! k))) (drop (fst (layout 0 ds ! k)) (concat (map padded ds)))
          = snd (layout 0 ds ! k)" if "k < length ds" for k
    using that by (simp add: layout_nth region_data)
  show ?thesis unfolding segs bc using 1 2 by simp
qed

lemmas collect_eval =
  collect_def convert_buffers_def convert_images_def update_final_size_def
  process_buffer_def process_image_def embed_image_def external_uri_def patch_views_def
  patch_view_def number_sum_def exact_def advance_def padding4_def collapsed_def node_with_def
  Let_def getMimeType_def mimeTypes_def posix_extname_def to_lower_def replicate_small

lemma length_example_bin [simp]: "length example_bin = 10"
  by (simp add: example_bin_def)

lemma length_example_png [simp]: "length example_png = 7"
  by (simp add: example_png_def)

lemma example_collect:
  "collect example_node (JObj example_gltf)
     = Inr (JObj example_patched,
            \<lparr>modifiedGltf = example_patched, binaryChunks = example_chunks, totalSize = 20\<rparr>)"
  by (simp add: example_node_def example_gltf_def example_patched_def example_chunks_def
      collect_eval)

lemma example_segments: "segments 0 example_chunks = [(0, example_bin), (12, example_png)]"
  by (simp add: example_chunks_def)

theorem segment_offsets_aligned_witness:
  "collect example_node (JObj example_gltf)
     = Inr (JObj example_patched,
            \<lparr>modifiedGltf = example_patched, binaryChunks = example_chunks, totalSize = 20\<rparr>)
   \<and> segments 0 example_chunks = [(0, example_bin), (12, example_png)]
   \<and> round_up4 (0 + 10) = 12
   \<and> (12::nat) mod 4 = 0
   \<and> take 7 (drop 12 (Buffer_concat example_chunks)) = example_png"
proof -
  note t = segment_offsets_aligned [OF example_collect]
  from t have "round_up4 (0 + 10) = 12"
    by (simp add: example_segments)
  moreover from t [THEN conjunct2, rule_format, of 1]
  have "take 7 (drop 12 (Buffer_concat example_chunks)) = example_png"
    by (simp add: example_segments)
  ultimately show ?thesis
    using example_collect example_segments by simp
qed

lemma add_offset_number:
  assumes "offset_of off = Some n" "add_offset off t = Inr x"
  shows "x = JNum (n + int t) \<and> exact (n + int t)"
  using assms
  by (cases off rule: offset_of.cases) (auto simp: number_sum_def split: if_splits)

lemma patch_view_hit:
  assumes "map_of bv ''buffer'' = Some (JNum (int i))"
    and "offset_of (map_of bv ''byteOffset'') = Some n"
    and "patch_view i t (JObj bv) = Inr w"
  shows "w = JObj (AList.update ''buffer'' (JNum 0)
                   (AList.update ''byteOffset'' (JNum (n + int t)) bv))
       \<and> exact (n + int t)"
proof -
  from assms(1,3) obtain x where x: "add_offset (map_of bv ''byteOffset'') t = Inr x"
    and w: "w = JObj (AList.update ''buffer'' (JNum 0) (AList.update ''byteOffset'' x bv))"
    by (auto simp: patch_view_def split: sum.splits)
  from add_offset_number [OF assms(2) x] w show ?thesis by simp
qed

lemma patch_view_miss:
  assumes "get_prop v ''buffer'' = Inr b" "b \<noteq> Some (JNum (int i))"
  shows "patch_view i t v = Inr v"
  using assms by (simp add: patch_view_def)

lemma patch_all_miss:
  assumes "get_prop v ''buffer'' = Inr b"
    and "\<And>k. k < length bs \<Longrightarrow> loaded env (bs ! k) \<noteq> None \<Longrightarrow> b \<noteq> Some (JNum (int (i + k)))"
  shows "patch_all env i bs t v = Inr v"
  using assms(2)
proof (induction bs arbitrary: i t)
  case Nil
  then show ?case by simp
next
  case (Cons b0 bs)
  have rest: "patch_all env (Suc i) bs t' v = Inr v" for t'
  proof (rule Cons.IH)
    fix k assume "k < length bs" "loaded env (bs ! k) \<noteq> None"
    with Cons.prems [of "Suc k"] show "b \<noteq> Some (JNum (int (Suc i + k)))" by simp
  qed
  show ?case
  proof (cases "loaded env b0")
    case None
    then show ?thesis by (simp add: rest)
  next
    case (Some d)
    with Cons.prems [of 0] have "b \<noteq> Some (JNum (int i))" by simp
    from patch_view_miss [OF assms(1) this] Some show ?thesis by (simp add: rest)
  qed
qed

lemma patch_all_hit:
  assumes "k < length bs" "loaded env (bs ! k) = Some d"
    and "map_of bv ''buffer'' = Some (JNum (int (i + k)))"
    and "offset_of (map_of bv ''byteOffset'') = Some n"
    and "patch_all env i bs t (JObj bv) = Inr w"
  shows "w = JObj (AList.update ''buffer'' (JNum 0)
             (AList.update ''byteOffset''
                (JNum (n + int (t + region_length (files env (take k bs))))) bv))
       \<and> exact (n + int (t + region_length (files env (take k bs))))"
  using assms(1-3,5)
proof (induction bs arbitrary: i k t)
  case Nil
  then show ?case by simp
next
  case (Cons b0 bs)
  show ?case
  proof (cases k)
    case 0
    with Cons.prems have l: "loaded env b0 = Some d"
      and b: "map_of bv ''buffer'' = Some (JNum (int i))" by simp_all
    from Cons.prems(4) l obtain v' where pv: "patch_view i t (JObj bv) = Inr v'"
      and rest: "patch_all env (Suc i) bs (t + padded_length (length d)) v' = Inr w"
      by (auto split: sum.splits)
    note h = patch_view_hit [OF b assms(4) pv]
    have "patch_all env (Suc i) bs t' v' = Inr v'" for t'
      unfolding h [THEN conjunct1]
      by (rule patch_all_miss [of _ "Some (JNum 0)"]) (simp_all add: update_conv')
    with rest have "w = v'" by simp
    with h 0 show ?thesis by simp
  next
    case (Suc k')
    with Cons.prems have k': "k' < length bs" and l: "loaded env (bs ! k') = Some d"
      and b: "map_of bv ''buffer'' = Some (JNum (int (Suc i + k')))" by simp_all
    note ih = Cons.IH [OF k' l b]
    have miss: "patch_view i t' (JObj bv) = Inr (JObj bv)" for t'
      by (rule patch_view_miss [of _ "Some (JNum (int (Suc i + k')))"]) (simp_all add: b)
    show ?thesis
    proof (cases "loaded env b0")
      case None
      with Cons.prems(4) have "patch_all env (Suc i) bs t (JObj bv) = Inr w" by simp
      from ih [OF this] Suc None show ?thesis by simp
    next
      case (Some d0)
      with Cons.prems(4) miss
      have "patch_all env (Suc i) bs (t + padded_length (length d0)) (JObj bv) = Inr w" by simp
      from ih [OF this] Suc Some show ?thesis
        by (simp add: add.assoc)
    qed
  qed
qed

lemma files_append: "files env (xs @ ys) = files env xs @ files env ys"
  by (induction xs) (auto split: option.splits)

lemma files_nth_loaded:
  assumes "i < length bs" "loaded env (bs ! i) = Some d"
  shows "files env bs = files env (take i bs) @ d # files env (drop (Suc i) bs)"
proof -
  have "bs = take i bs @ bs ! i # drop (Suc i) bs"
    using assms(1) by (simp add: id_take_nth_drop [symmetric])
  then have "files env bs = files env (take i bs @ bs ! i # drop (Suc i) bs)" by simp
  then show ?thesis by (simp add: files_append assms(2))
qed

lemma files_take_Suc:
  assumes "i < length bs"
  shows "files env (take (Suc i) bs) =
     files env (take i bs) @ (case loaded env (bs ! i) of None \<Rightarrow> [] | Some d \<Rightarrow> [d])"
  using assms by (simp add: take_Suc_conv_app_nth files_append split: option.splits)

lemma region_data_at:
  "take (length d) (drop (region_length pre) (concat (map padded pre) @ padded d @ rest)) = d"
  by (simp add: padded_def)

lemma loaded_iff:
  "loaded env entry = Some d \<longleftrightarrow>
     (\<exists>uri. external_uri entry = Inr (Some uri) \<and> readFile env uri = Some (Inr d))"
  by (auto simp: loaded_def split: sum.splits option.splits)

lemma collect_data_buffer:
  assumes "collect env (JObj doc) = Inr (patched, st)"
    and "i < length (entries_of (map_of doc ''buffers''))"
    and "loaded env (entries_of (map_of doc ''buffers'') ! i) = Some d"
  shows "take (length d)
           (drop (region_length (files env (take i (entries_of (map_of doc ''buffers'')))))
              (Buffer_concat (binaryChunks st))) = d"
proof -
  let ?bs = "entries_of (map_of doc ''buffers'')"
  let ?rest = "concat (map padded (files env (drop (Suc i) ?bs)))
                @ concat (map padded (files env (entries_of (map_of doc ''images''))))"
  from collect_closed [OF assms(1)] have
    "Buffer_concat (binaryChunks st) = concat (map padded
         (files env ?bs @ files env (entries_of (map_of doc ''images''))))"
    by (auto simp: Buffer_concat_segments)
  also have "\<dots> = concat (map padded (files env (take i ?bs))) @ padded d @ ?rest"
    by (subst files_nth_loaded [OF assms(2,3)]) simp
  finally show ?thesis by (simp only: region_data_at)
qed

text \<open>
  Claim C4. Let the conversion succeed on a document whose \<^verbatim>\<open>buffers\<close> and
  \<^verbatim>\<open>bufferViews\<close> are arrays, let buffer \<open>i\<close> have a \<^verbatim>\<open>uri\<close> that passes the guard of
  line 56 (not empty, not a \<^verbatim>\<open>data:\<close> URI) and names a file that exists and is read, and
  let view \<open>j\<close> have \<^verbatim>\<open>buffer\<close> equal to \<open>i\<close> and a \<^verbatim>\<open>byteOffset\<close> that is missing (then
  \<open>n = 0\<close>) or the integer \<open>n\<close>, with \<open>n\<close> and \<open>n\<close> plus the running total in the range
  where doubles add as integers do. Then in the patched document view \<open>j\<close> is the same
  object with \<^verbatim>\<open>byteOffset\<close> set to \<open>n\<close> plus the running total at the start of buffer
  \<open>i\<close>'s data (the padded sizes of the files read for the buffers before \<open>i\<close>) and
  \<^verbatim>\<open>buffer\<close> set to 0, and buffer \<open>i\<close>'s bytes lie at that running total in the
  consolidated region. The witness is the specification's example: a view
  \<^verbatim>\<open>{buffer: 1, byteOffset: 5}\<close> after a buffer 0 of 8 padded bytes becomes
  \<^verbatim>\<open>{buffer: 0, byteOffset: 13}\<close>.
\<close>

theorem buffer_views_retargeted:
  assumes "collect env (JObj doc) = Inr (JObj doc', st)"
    and "map_of doc ''buffers'' = Some (JArr bs)"
    and "map_of doc ''bufferViews'' = Some (JArr vs)"
    and "i < length bs"
    and "external_uri (bs ! i) = Inr (Some uri)"
    and "readFile env uri = Some (Inr d)"
    and "j < length vs"
    and "vs ! j = JObj bv"
    and "map_of bv ''buffer'' = Some (JNum (int i))"
    and "offset_of (map_of bv ''byteOffset'') = Some n"
    and "exact n"
    and "exact (n + int (region_length (files env (take i bs))))"
  shows "\<exists>vs'. map_of doc' ''bufferViews'' = Some (JArr vs') \<and> j < length vs'
      \<and> vs' ! j = JObj (AList.update ''buffer'' (JNum 0)
                   (AList.update ''byteOffset''
                      (JNum (n + int (region_length (files env (take i bs))))) bv))
      \<and> take (length d) (drop (region_length (files env (take i bs)))
                            (Buffer_concat (binaryChunks st))) = d"
proof -
  have l: "loaded env (bs ! i) = Some d"
    using assms(5,6) by (auto simp: loaded_iff)
  from collect_closed [OF assms(1)] obtain vs0 where
    m: "map_err (patch_all env 0 bs 0) vs = Inr vs0"
    and p: "doc' = patched_document env doc vs0"
    by (auto simp: assms(2,3))
  have len: "length vs0 = length vs" using m by (rule map_err_length)
  have "patch_all env 0 bs 0 (JObj bv) = Inr (vs0 ! j)"
    using map_err_nth [OF m assms(7)] by (simp add: assms(8))
  from patch_all_hit [OF assms(4) l _ assms(10) this]
  have nth: "vs0 ! j = JObj (AList.update ''buffer'' (JNum 0)
                   (AList.update ''byteOffset''
                      (JNum (n + int (region_length (files env (take i bs))))) bv))"
    by (simp add: assms(9))
  have "\<exists>new. map_of doc' ''bufferViews'' = Some (JArr (vs0 @ new))"
    unfolding p patched_document_bufferViews by (simp add: assms(3))
  then obtain new where v': "map_of doc' ''bufferViews'' = Some (JArr (vs0 @ new))" by blast
  have "take (length d) (drop (region_length (files env (take i bs)))
                            (Buffer_concat (binaryChunks st))) = d"
    using collect_data_buffer [OF assms(1), of i d] assms(4) l by (simp add: assms(2))
  with v' nth len assms(7) show ?thesis
    by (intro exI [of _ "vs0 @ new"]) (simp add: nth_append)
qed

lemma length_retarget_bin0 [simp]: "length retarget_bin0 = 6"
  by (simp add: retarget_bin0_def)

lemma length_retarget_bin1 [simp]: "length retarget_bin1 = 7"
  by (simp add: retarget_bin1_def)

lemma retarget_collect:
  "collect retarget_node (JObj retarget_gltf)
     = Inr (JObj retarget_patched,
            \<lparr>modifiedGltf = retarget_patched, binaryChunks = retarget_chunks, totalSize = 16\<rparr>)"
  by (simp add: retarget_node_def retarget_gltf_def retarget_patched_def retarget_chunks_def
      collect_eval)

lemma retarget_loaded:
  "loaded retarget_node (JObj [(''uri'', JStr ''b0.bin'')]) = Some retarget_bin0"
  "loaded retarget_node (JObj [(''uri'', JStr ''b1.bin'')]) = Some retarget_bin1"
  by (simp_all add: retarget_node_def node_with_def loaded_def external_uri_def)

theorem buffer_views_retargeted_witness:
  "collect retarget_node (JObj retarget_gltf)
     = Inr (JObj retarget_patched,
            \<lparr>modifiedGltf = retarget_patched, binaryChunks = retarget_chunks, totalSize = 16\<rparr>)
   \<and> external_uri (JObj [(''uri'', JStr ''b1.bin'')]) = Inr (Some ''b1.bin'')
   \<and> readFile retarget_node ''b1.bin'' = Some (Inr retarget_bin1)
   \<and> offset_of (Some (JNum 5)) = Some 5
   \<and> exact 5
   \<and> exact (5 + 8)
   \<and> map_of retarget_patched ''bufferViews''
       = Some (JArr [JObj [(''buffer'', JNum 0), (''byteOffset'', JNum 13)]])
   \<and> take 7 (drop 8 (Buffer_concat retarget_chunks)) = retarget_bin1"
proof -
  let ?b0 = "JObj [(''uri'', JStr ''b0.bin'')]"
  let ?b1 = "JObj [(''uri'', JStr ''b1.bin'')]"
  let ?bv = "[(''buffer'', JNum 1), (''byteOffset'', JNum 5)]"
  have u: "external_uri ([?b0, ?b1] ! 1) = Inr (Some ''b1.bin'')"
    by (simp add: external_uri_def)
  have f: "readFile retarget_node ''b1.bin'' = Some (Inr retarget_bin1)"
    by (simp add: retarget_node_def node_with_def)
  from buffer_views_retargeted [OF retarget_collect, of "[?b0, ?b1]" "[JObj ?bv]" 1 "''b1.bin''"
      retarget_bin1 0 ?bv 5, OF _ _ _ u f]
  obtain vs' where "map_of retarget_patched ''bufferViews'' = Some (JArr vs')"
    and "vs' ! 0 = JObj (AList.update ''buffer'' (JNum 0)
                   (AList.update ''byteOffset'' (JNum (5 + int 8)) ?bv))"
    and "take 7 (drop 8 (Buffer_concat retarget_chunks)) = retarget_bin1"
    by (auto simp: retarget_gltf_def retarget_loaded padded_length_def padding4_def exact_def)
  moreover have "map_of retarget_patched ''bufferViews''
       = Some (JArr [JObj [(''buffer'', JNum 0), (''byteOffset'', JNum 13)]])"
    by (simp add: retarget_patched_def)
  ultimately show ?thesis
    using retarget_collect u f by (simp add: exact_def)
qed

lemma missing_not_loaded: "missing env entry \<Longrightarrow> loaded env entry = None"
  by (auto simp: missing_def loaded_def split: sum.splits option.splits)

lemma missing_process_buffer: "missing env b \<Longrightarrow> process_buffer env i b st = Inr (b, st)"
  by (auto simp: missing_def process_buffer_def split: sum.splits option.splits)

lemma missing_process_image: "missing env img \<Longrightarrow> process_image env img st = Inr (img, st)"
  by (auto simp: missing_def process_image_def split: sum.splits option.splits)

lemma length_patched_images [simp]: "length (patched_images env idx imgs) = length imgs"
  by (induction imgs arbitrary: idx) (auto split: option.splits)

lemma patched_images_nth_none:
  "j < length imgs \<Longrightarrow> loaded env (imgs ! j) = None \<Longrightarrow> patched_images env idx imgs ! j = imgs ! j"
proof (induction imgs arbitrary: idx j)
  case Nil
  then show ?case by simp
next
  case (Cons img imgs)
  then show ?case by (cases j) (auto split: option.splits)
qed

lemma patched_images_nth_loaded:
  "j < length imgs \<Longrightarrow> loaded env (imgs ! j) = Some d \<Longrightarrow>
   patched_images env idx imgs ! j
     = embedded (getMimeType (extname env (the_uri (imgs ! j))))
         (idx + length (files env (take j imgs))) (imgs ! j)"
proof (induction imgs arbitrary: idx j)
  case Nil
  then show ?case by simp
next
  case (Cons img imgs)
  then show ?case by (cases j) (auto split: option.splits)
qed

lemma image_views_nth:
  "j < length imgs \<Longrightarrow> loaded env (imgs ! j) = Some d \<Longrightarrow>
   image_views env off imgs ! length (files env (take j imgs))
     = image_view (off + region_length (files env (take j imgs))) (length d)"
proof (induction imgs arbitrary: off j)
  case Nil
  then show ?case by simp
next
  case (Cons img imgs)
  then show ?case by (cases j) (auto split: option.splits simp: add.assoc)
qed

lemma files_take_missing:
  "i < length bs \<Longrightarrow> loaded env (bs ! i) = None \<Longrightarrow> files env (take (Suc i) bs) = files env (take i bs)"
  by (simp add: files_take_Suc)

text \<open>
  Claim C6. Whenever the two loops return: a buffer entry whose \<^verbatim>\<open>uri\<close> names a file that
  does not exist leaves the converter state as it was, adds nothing to the binary region,
  and the buffer views that refer to its index are left as they are; an image entry whose
  \<^verbatim>\<open>uri\<close> names a file that does not exist leaves the state as it was, adds nothing to the
  region, and the entry is in the output as it was in the input, \<^verbatim>\<open>uri\<close> included; the
  region is made of the files that exist only.
\<close>

theorem missing_files_skipped:
  assumes "collect env (JObj doc) = Inr (JObj doc', st)"
    and "bs = entries_of (map_of doc ''buffers'')"
    and "vs = entries_of (map_of doc ''bufferViews'')"
    and "imgs = entries_of (map_of doc ''images'')"
    and "vs' = entries_of (map_of doc' ''bufferViews'')"
    and "imgs' = entries_of (map_of doc' ''images'')"
  shows "(\<forall>i. i < length bs \<and> missing env (bs ! i) \<longrightarrow>
            (\<forall>st0. process_buffer env i (bs ! i) st0 = Inr (bs ! i, st0))
          \<and> files env (take (Suc i) bs) = files env (take i bs)
          \<and> (\<forall>j. j < length vs \<and> get_prop (vs ! j) ''buffer'' = Inr (Some (JNum (int i))) \<longrightarrow>
                 j < length vs' \<and> vs' ! j = vs ! j))
       \<and> (\<forall>j. j < length imgs \<and> missing env (imgs ! j) \<longrightarrow>
            (\<forall>st0. process_image env (imgs ! j) st0 = Inr (imgs ! j, st0))
          \<and> files env (take (Suc j) imgs) = files env (take j imgs)
          \<and> j < length imgs' \<and> imgs' ! j = imgs ! j)
       \<and> binaryChunks st = concat (map segment (files env bs @ files env imgs))"
proof -
  from collect_closed [OF assms(1)] obtain vs0 where
    m: "map_err (patch_all env 0 bs 0) vs = Inr vs0"
    and p: "doc' = patched_document env doc vs0"
    and ch: "binaryChunks st = concat (map segment (files env bs @ files env imgs))"
    by (auto simp: assms(2-4))
  have len: "length vs0 = length vs" using m by (rule map_err_length)
  have views: "\<exists>new. vs' = vs0 @ new" if "vs \<noteq> []"
  proof -
    from that obtain xs where "map_of doc ''bufferViews'' = Some (JArr xs)"
      unfolding assms(3) by (cases "map_of doc ''bufferViews''" rule: entries_of.cases) auto
    then show ?thesis
      unfolding assms(5) p patched_document_bufferViews by simp
  qed
  have A: "j < length vs' \<and> vs' ! j = vs ! j"
    if "i < length bs" "missing env (bs ! i)" "j < length vs"
      "get_prop (vs ! j) ''buffer'' = Inr (Some (JNum (int i)))" for i j
  proof -
    from that(3) views obtain new where new: "vs' = vs0 @ new" by fastforce
    have "patch_all env 0 bs 0 (vs ! j) = Inr (vs ! j)"
    proof (rule patch_all_miss [OF that(4)])
      fix k assume "k < length bs" "loaded env (bs ! k) \<noteq> None"
      with missing_not_loaded [OF that(2)] have "k \<noteq> i" by auto
      then show "Some (JNum (int i)) \<noteq> Some (JNum (int (0 + k)))" by simp
    qed
    with map_err_nth [OF m that(3)] have "vs0 ! j = vs ! j" by simp
    with new len that(3) show ?thesis by (simp add: nth_append)
  qed
  have images: "imgs' = patched_images env (length vs0) imgs"
    unfolding assms(4,6) p patched_document_images
    by (cases "map_of doc ''images''" rule: entries_of.cases) simp_all
  have B: "j < length imgs' \<and> imgs' ! j = imgs ! j" if "j < length imgs" "missing env (imgs ! j)" for j
    using that by (simp add: images patched_images_nth_none missing_not_loaded)
  show ?thesis
    using A B ch
    by (auto simp: missing_process_buffer missing_process_image files_take_missing
        missing_not_loaded)
qed

lemma missing_collect:
  "collect (node_with []) (JObj missing_gltf)
     = Inr (JObj missing_patched,
            \<lparr>modifiedGltf = missing_patched, binaryChunks = [], totalSize = 0\<rparr>)"
  by (simp add: missing_gltf_def missing_patched_def collect_eval)

theorem missing_files_skipped_witness:
  "collect (node_with []) (JObj missing_gltf)
     = Inr (JObj missing_patched,
            \<lparr>modifiedGltf = missing_patched, binaryChunks = [], totalSize = 0\<rparr>)
   \<and> missing (node_with []) (JObj [(''uri'', JStr ''missing.bin''), (''byteLength'', JNum 8)])
   \<and> missing (node_with []) (JObj [(''uri'', JStr ''missing.png'')])
   \<and> entries_of (map_of missing_patched ''bufferViews'') ! 0
       = JObj [(''buffer'', JNum 0), (''byteOffset'', JNum 4)]
   \<and> entries_of (map_of missing_patched ''images'') ! 0 = JObj [(''uri'', JStr ''missing.png'')]
   \<and> files (node_with []) (entries_of (map_of missing_gltf ''buffers'')) = []
   \<and> files (node_with []) (entries_of (map_of missing_gltf ''images'')) = []"
proof -
  have mb: "missing (node_with []) (JObj [(''uri'', JStr ''missing.bin''), (''byteLength'', JNum 8)])"
    and mi: "missing (node_with []) (JObj [(''uri'', JStr ''missing.png'')])"
    by (simp_all add: missing_def external_uri_def node_with_def)
  note t = missing_files_skipped [OF missing_collect refl refl refl refl refl]
  from t [THEN conjunct1, rule_format, of 0, THEN conjunct2, THEN conjunct2, rule_format, of 0] mb
  have a: "entries_of (map_of missing_patched ''bufferViews'') ! 0
       = JObj [(''buffer'', JNum 0), (''byteOffset'', JNum 4)]"
    by (simp add: missing_gltf_def)
  from t [THEN conjunct2, THEN conjunct1, rule_format, of 0] mi
  have b: "entries_of (map_of missing_patched ''images'') ! 0 = JObj [(''uri'', JStr ''missing.png'')]"
    by (simp add: missing_gltf_def)
  from t [THEN conjunct1, rule_format, of 0, THEN conjunct2, THEN conjunct1] mb
  have c: "files (node_with []) (entries_of (map_of missing_gltf ''buffers'')) = []"
    by (simp add: missing_gltf_def)
  from t [THEN conjunct2, THEN conjunct1, rule_format, of 0, THEN conjunct2, THEN conjunct1] mi
  have d: "files (node_with []) (entries_of (map_of missing_gltf ''images'')) = []"
    by (simp add: missing_gltf_def)
  from missing_collect mb mi a b c d show ?thesis by simp
qed

lemma getMimeType_table: "getMimeType extension = mime_table (map to_lower extension)"
  by (simp add: getMimeType_def mimeTypes_def mime_table_def)

lemma collect_data_image:
  assumes "collect env (JObj doc) = Inr (patched, st)"
    and "j < length (entries_of (map_of doc ''images''))"
    and "loaded env (entries_of (map_of doc ''images'') ! j) = Some d"
  shows "take (length d)
           (drop (region_length (files env (entries_of (map_of doc ''buffers'')))
                  + region_length (files env (take j (entries_of (map_of doc ''images'')))))
              (Buffer_concat (binaryChunks st))) = d"
proof -
  let ?bs = "entries_of (map_of doc ''buffers'')"
  let ?imgs = "entries_of (map_of doc ''images'')"
  let ?pre = "files env ?bs @ files env (take j ?imgs)"
  from collect_closed [OF assms(1)] have
    "Buffer_concat (binaryChunks st) = concat (map padded (files env ?bs @ files env ?imgs))"
    by (auto simp: Buffer_concat_segments)
  also have "\<dots> = concat (map padded ?pre) @ padded d
      @ concat (map padded (files env (drop (Suc j) ?imgs)))"
    by (subst files_nth_loaded [OF assms(2,3)]) simp
  finally have "take (length d) (drop (region_length ?pre) (Buffer_concat (binaryChunks st))) = d"
    by (simp only: region_data_at)
  then show ?thesis by simp
qed

text \<open>
  Claim C5. Whenever the two loops return, an image entry with an external \<^verbatim>\<open>uri\<close> whose
  file is read has, in the output: a new buffer view, at the index that follows the views
  of the input and the views of the images embedded before it, with \<^verbatim>\<open>buffer\<close> 0, the
  offset of the image's bytes in the region as \<^verbatim>\<open>byteOffset\<close> and their number as
  \<^verbatim>\<open>byteLength\<close>; that index as its \<^verbatim>\<open>bufferView\<close>; the type that the table of
  \<^verbatim>\<open>getMimeType\<close> gives for the lower-cased extension as its \<^verbatim>\<open>mimeType\<close>; and no
  \<^verbatim>\<open>uri\<close>. The region holds the bytes of the file at that offset.
\<close>

theorem images_embedded:
  assumes "collect env (JObj doc) = Inr (JObj doc', st)"
    and "map_of doc ''images'' = Some (JArr imgs)"
    and "j < length imgs"
    and "imgs ! j = JObj kvs"
    and "external_uri (imgs ! j) = Inr (Some uri)"
    and "readFile env uri = Some (Inr d)"
    and "bs = entries_of (map_of doc ''buffers'')"
    and "vs = entries_of (map_of doc ''bufferViews'')"
    and "idx = length vs + length (files env (take j imgs))"
    and "off = region_length (files env bs) + region_length (files env (take j imgs))"
  shows "\<exists>vs' imgs'.
        map_of doc' ''bufferViews'' = Some (JArr vs')
      \<and> map_of doc' ''images'' = Some (JArr imgs')
      \<and> length vs' = length vs + length (files env imgs)
      \<and> idx < length vs'
      \<and> vs' ! idx = JObj [(''buffer'', JNum 0), (''byteOffset'', JNum (int off)),
                          (''byteLength'', JNum (int (length d)))]
      \<and> j < length imgs'
      \<and> imgs' ! j = JObj (AList.update ''mimeType'' (JStr (mime_table (map to_lower (extname env uri))))
                          (AList.update ''bufferView'' (JNum (int idx)) (AList.delete ''uri'' kvs)))
      \<and> map_of (AList.update ''mimeType'' (JStr (mime_table (map to_lower (extname env uri))))
                  (AList.update ''bufferView'' (JNum (int idx)) (AList.delete ''uri'' kvs))) ''uri''
          = None
      \<and> take (length d) (drop off (Buffer_concat (binaryChunks st))) = d"
proof -
  have l: "loaded env (imgs ! j) = Some d"
    using assms(5,6) by (auto simp: loaded_iff)
  have tu: "the_uri (JObj kvs) = uri" using assms(5) by (simp add: the_uri_def assms(4))
  from collect_closed [OF assms(1)] obtain vs0 where
    m: "map_err (patch_all env 0 bs 0) vs = Inr vs0"
    and p: "doc' = patched_document env doc vs0"
    by (auto simp: assms(7,8))
  have len: "length vs0 = length vs" using m by (rule map_err_length)
  have fs: "files env imgs = files env (take j imgs) @ d # files env (drop (Suc j) imgs)"
    using assms(3) l by (rule files_nth_loaded)
  then have ne: "files env imgs \<noteq> []" by simp
  let ?iv = "image_views env (region_length (files env bs)) imgs"
  have v': "map_of doc' ''bufferViews'' = Some (JArr (vs0 @ ?iv))"
    unfolding p patched_document_bufferViews using ne by (simp add: assms(2,7))
  have i': "map_of doc' ''images'' = Some (JArr (patched_images env (length vs0) imgs))"
    unfolding p patched_document_images by (simp add: assms(2))
  have lt: "length (files env (take j imgs)) < length ?iv"
    by (simp add: length_image_views fs)
  have nth: "(vs0 @ ?iv) ! idx = image_view off (length d)"
    using image_views_nth [OF assms(3) l, of "region_length (files env bs)"]
    by (simp add: assms(9,10) len [symmetric] nth_append)
  have img: "patched_images env (length vs0) imgs ! j
      = JObj (AList.update ''mimeType'' (JStr (mime_table (map to_lower (extname env uri))))
               (AList.update ''bufferView'' (JNum (int idx)) (AList.delete ''uri'' kvs)))"
    by (simp add: patched_images_nth_loaded [OF assms(3) l] tu assms(4,9) len getMimeType_table)
  have data: "take (length d) (drop off (Buffer_concat (binaryChunks st))) = d"
    using collect_data_image [OF assms(1), of j d] assms(3) l
    by (simp add: assms(2,7,10))
  have nouri: "map_of (AList.update ''mimeType'' (JStr (mime_table (map to_lower (extname env uri))))
                  (AList.update ''bufferView'' (JNum (int idx)) (AList.delete ''uri'' kvs))) ''uri''
          = None"
    by (simp add: update_conv' delete_conv')
  show ?thesis
    apply (rule exI [of _ "vs0 @ ?iv"])
    apply (rule exI [of _ "patched_images env (length vs0) imgs"])
    using v' i' lt nth img data nouri assms(3)
    by (simp add: len assms(9) length_image_views image_view_def)
qed

lemma example_loaded:
  "loaded example_node (JObj [(''uri'', JStr ''a.bin''), (''byteLength'', JNum 10)]) = Some example_bin"
  "loaded example_node (JObj [(''uri'', JStr ''i.png'')]) = Some example_png"
  by (simp_all add: example_node_def node_with_def loaded_def external_uri_def)

theorem images_embedded_witness:
  "collect example_node (JObj example_gltf)
     = Inr (JObj example_patched,
            \<lparr>modifiedGltf = example_patched, binaryChunks = example_chunks, totalSize = 20\<rparr>)
   \<and> external_uri (JObj [(''uri'', JStr ''i.png'')]) = Inr (Some ''i.png'')
   \<and> readFile example_node ''i.png'' = Some (Inr example_png)
   \<and> entries_of (map_of example_patched ''bufferViews'') ! 1
       = JObj [(''buffer'', JNum 0), (''byteOffset'', JNum 12), (''byteLength'', JNum 7)]
   \<and> entries_of (map_of example_patched ''images'') ! 0
       = JObj [(''bufferView'', JNum 1), (''mimeType'', JStr ''image/png'')]
   \<and> take 7 (drop 12 (Buffer_concat example_chunks)) = example_png"
proof -
  let ?img = "JObj [(''uri'', JStr ''i.png'')]"
  have u: "external_uri ([?img] ! 0) = Inr (Some ''i.png'')"
    by (simp add: external_uri_def)
  have f: "readFile example_node ''i.png'' = Some (Inr example_png)"
    by (simp add: example_node_def node_with_def)
  have i: "map_of example_gltf ''images'' = Some (JArr [?img])"
    by (simp add: example_gltf_def)
  have e: "extname example_node ''i.png'' = ''.png''"
    by (simp add: example_node_def node_with_def posix_extname_def)
  from images_embedded [OF example_collect i _ _ u f refl refl refl refl]
  obtain vs' imgs' where "map_of example_patched ''bufferViews'' = Some (JArr vs')"
    and "map_of example_patched ''images'' = Some (JArr imgs')"
    and "vs' ! 1 = JObj [(''buffer'', JNum 0), (''byteOffset'', JNum 12), (''byteLength'', JNum 7)]"
    and "imgs' ! 0 = JObj [(''bufferView'', JNum 1), (''mimeType'', JStr ''image/png'')]"
    and "take 7 (drop 12 (Buffer_concat example_chunks)) = example_png"
    by (auto simp: example_gltf_def example_loaded padded_length_def padding4_def e
        mime_table_def to_lower_def)
  with example_collect u f show ?thesis by simp
qed

lemma bin_payload_aligned: "length b mod 4 = 0 \<Longrightarrow> bin_payload b = b"
  by (simp add: bin_payload_def padding4_zero)

lemma convert_container:
  assumes "convertGLTFToGLB env gltfData = Inr glb"
  shows "\<exists>patched st clean. collect env gltfData = Inr (patched, st)
      \<and> cleanGltf patched = Inr clean
      \<and> glb = container env clean (Buffer_concat (binaryChunks st)) (length glb)"
proof -
  from assms obtain patched st where c: "collect env gltfData = Inr (patched, st)"
    and g: "createGLB env patched (Buffer_concat (binaryChunks st)) = Inr glb"
    by (auto simp: convertGLTFToGLB_def split: sum.splits)
  from g obtain clean where cl: "cleanGltf patched = Inr clean"
    by (auto simp: createGLB_def split: sum.splits)
  from g have "glb = container env clean (Buffer_concat (binaryChunks st))
      (container_length env clean (Buffer_concat (binaryChunks st)))"
    by (simp add: createGLB_eq [OF cl] split: if_splits)
  then have "glb = container env clean (Buffer_concat (binaryChunks st)) (length glb)"
    by (metis length_container)
  with c cl show ?thesis by blast
qed

lemma collect_region:
  assumes "collect env gltfData = Inr (patched, st)"
  shows "length (Buffer_concat (binaryChunks st)) = totalSize st \<and> totalSize st mod 4 = 0"
proof (cases gltfData)
  case (JObj doc)
  with collect_closed [of env doc patched st] assms obtain ds where
    "binaryChunks st = concat (map segment ds)" "totalSize st = region_length ds"
    by blast
  then show ?thesis
    by (simp add: Buffer_concat_segments del: region_length_simps)
qed (use assms in \<open>auto simp: collect_def\<close>)

text \<open>
  Claim C3, corrected. The claim gives the length of the binary region as the sum of the
  padded sizes of the buffers; the images that are embedded are laid out in the same
  region. For a document with a non-empty \<^verbatim>\<open>buffers\<close> array and a conversion that
  returns: the running total is the sum of the padded sizes of the buffer files and of the
  image files that are read; it is the length of the concatenated region; it is the
  \<^verbatim>\<open>byteLength\<close> of the single buffer entry of the output; and the BIN chunk of the
  container carries the region with no further padding.
\<close>

theorem region_total_length:
  assumes "convertGLTFToGLB env (JObj doc) = Inr glb"
    and "collect env (JObj doc) = Inr (JObj doc', st)"
    and "map_of doc ''buffers'' = Some (JArr bs)"
    and "bs \<noteq> []"
    and "imgs = entries_of (map_of doc ''images'')"
  shows "totalSize st = region_length (files env bs) + region_length (files env imgs)
       \<and> length (Buffer_concat (binaryChunks st)) = totalSize st
       \<and> map_of doc' ''buffers'' = Some (JArr [JObj [(''byteLength'', JNum (int (totalSize st)))]])
       \<and> bin_payload (Buffer_concat (binaryChunks st)) = Buffer_concat (binaryChunks st)
       \<and> (\<exists>clean. cleanGltf (JObj doc') = Inr clean
            \<and> glb = container env clean (Buffer_concat (binaryChunks st)) (length glb))"
proof -
  from collect_closed [OF assms(2)] obtain vs0 where
    p: "doc' = patched_document env doc vs0"
    and t: "totalSize st = region_length (files env bs @ files env imgs)"
    by (auto simp: assms(3,5))
  from assms(4) obtain b0 rest where "bs = b0 # rest" by (cases bs) auto
  then have he: "has_entries (map_of doc ''buffers'')" by (simp add: assms(3))
  have b: "map_of doc' ''buffers'' = Some (collapsed (totalSize st))"
    unfolding p patched_document_buffers using he by (simp add: t assms(3,5))
  note r = collect_region [OF assms(2)]
  from convert_container [OF assms(1)] assms(2) have
    "\<exists>clean. cleanGltf (JObj doc') = Inr clean
            \<and> glb = container env clean (Buffer_concat (binaryChunks st)) (length glb)"
    by auto
  with t b r show ?thesis
    by (simp add: collapsed_def bin_payload_aligned)
qed

lemma decimal_digits:
  "n < 10 \<Longrightarrow> decimal n = [char_of (48 + n)]"
  "10 \<le> n \<Longrightarrow> n < 100 \<Longrightarrow> decimal n = [char_of (48 + n div 10), char_of (48 + n mod 10)]"
  by (simp_all add: decimal.simps [of n] decimal.simps [of "n div 10"] less_mult_imp_div_less)

lemma example_cleanGltf: "cleanGltf (JObj example_patched) = Inr (JObj example_clean)"
  by (simp add: cleanGltf_def example_patched_def example_clean_def)

lemma example_stringify_length: "length (stringify example_node (JObj example_clean)) = 212"
  by (simp add: example_node_def node_with_def utf8_def example_clean_def example_patched_def
      default_asset_def quote_def escape_char_def show_int_def decimal_digits)

lemma example_region: "length (Buffer_concat example_chunks) = 20"
  by (simp add: example_chunks_def)

lemma example_convert:
  "convertGLTFToGLB example_node (JObj example_gltf)
     = Inr (container example_node (JObj example_clean) (Buffer_concat example_chunks) 260)"
proof -
  have "container_length example_node (JObj example_clean) (Buffer_concat example_chunks) = 260"
    using example_region
    by (auto simp: container_length_def json_payload_def bin_payload_def example_stringify_length
        padding4_def)
  then show ?thesis
    by (simp add: convertGLTFToGLB_def example_collect createGLB_eq [OF example_cleanGltf])
qed

theorem region_total_length_witness:
  "convertGLTFToGLB example_node (JObj example_gltf)
     = Inr (container example_node (JObj example_clean) (Buffer_concat example_chunks) 260)
   \<and> collect example_node (JObj example_gltf)
     = Inr (JObj example_patched,
            \<lparr>modifiedGltf = example_patched, binaryChunks = example_chunks, totalSize = 20\<rparr>)
   \<and> region_length (files example_node (entries_of (map_of example_gltf ''buffers''))) = 12
   \<and> region_length (files example_node (entries_of (map_of example_gltf ''images''))) = 8
   \<and> length (Buffer_concat example_chunks) = 20
   \<and> map_of example_patched ''buffers'' = Some (JArr [JObj [(''byteLength'', JNum 20)]])
   \<and> bin_payload (Buffer_concat example_chunks) = Buffer_concat example_chunks"
proof -
  have b: "map_of example_gltf ''buffers''
      = Some (JArr [JObj [(''uri'', JStr ''a.bin''), (''byteLength'', JNum 10)]])"
    by (simp add: example_gltf_def)
  have r: "region_length (files example_node (entries_of (map_of example_gltf ''buffers''))) = 12"
    "region_length (files example_node (entries_of (map_of example_gltf ''images''))) = 8"
    by (simp_all add: example_gltf_def example_loaded padded_length_def padding4_def)
  from region_total_length [OF example_convert example_collect b _ refl]
  have "length (Buffer_concat example_chunks) = 20"
    and "map_of example_patched ''buffers'' = Some (JArr [JObj [(''byteLength'', JNum 20)]])"
    and "bin_payload (Buffer_concat example_chunks) = Buffer_concat example_chunks"
    by simp_all
  with example_convert example_collect r show ?thesis by simp
qed

text \<open>
  Counterexample to claim C3 as stated: with one buffer of 10 bytes and one image of
  7 bytes, the padded size of the buffer is 12, and the running total, which becomes the
  \<^verbatim>\<open>byteLength\<close> of the output and the length of the BIN chunk, is 20.
\<close>

theorem region_total_buffers_only_counterexample:
  "collect example_node (JObj example_gltf)
     = Inr (JObj example_patched,
            \<lparr>modifiedGltf = example_patched, binaryChunks = example_chunks, totalSize = 20\<rparr>)
   \<and> region_length (files example_node (entries_of (map_of example_gltf ''buffers''))) = 12
   \<and> totalSize \<lparr>modifiedGltf = example_patched, binaryChunks = example_chunks, totalSize = 20\<rparr>
       \<noteq> region_length (files example_node (entries_of (map_of example_gltf ''buffers'')))"
proof -
  have "region_length (files example_node (entries_of (map_of example_gltf ''buffers''))) = 12"
    by (simp add: example_gltf_def example_loaded padded_length_def padding4_def)
  with example_collect show ?thesis by simp
qed

lemma convert_serialized:
  assumes "convertGLTFToGLB env gltfData = Inr glb"
  shows "\<exists>patched st clean. collect env gltfData = Inr (patched, st)
      \<and> serialized_document env gltfData = Inr clean
      \<and> glb = container env clean (Buffer_concat (binaryChunks st)) (length glb)"
  using convert_container [OF assms] by (auto simp: serialized_document_def)

text \<open>
  Claim C8, corrected. The claim says that the JSON chunk always carries
  \<^verbatim>\<open>asset.version\<close> equal to \<^verbatim>\<open>"2.0"\<close> when the input has none. The guard of
  \<^verbatim>\<open>createGLB\<close> (\<^verbatim>\<open>if (!cleanGltf.asset)\<close>) looks at \<^verbatim>\<open>asset\<close> only, never at its
  \<^verbatim>\<open>version\<close>. So, for every document that is an object and every conversion that
  returns: the document that is serialized into the JSON chunk is the document the two
  loops leave, and

    \<^item> when the input has no \<^verbatim>\<open>asset\<close>, or a falsy one, the property \<^verbatim>\<open>asset\<close> is set to
      \<^verbatim>\<open>{version: "2.0"}\<close>, so the serialized \<^verbatim>\<open>asset.version\<close> is \<^verbatim>\<open>"2.0"\<close>;

    \<^item> when the input has a truthy \<^verbatim>\<open>asset\<close>, nothing is added: the serialized document is
      the one the loops leave, its \<^verbatim>\<open>asset\<close> is the input's, and its \<^verbatim>\<open>asset.version\<close> is
      the input's, present or not.
\<close>

theorem asset_added_exactly_when_absent:
  assumes "convertGLTFToGLB env (JObj doc) = Inr glb"
  shows "\<exists>patched clean st.
        collect env (JObj doc) = Inr (JObj patched, st)
      \<and> serialized_document env (JObj doc) = Inr (JObj clean)
      \<and> glb = container env (JObj clean) (Buffer_concat (binaryChunks st)) (length glb)
      \<and> (\<not> truthy_opt (map_of doc ''asset'') \<longrightarrow>
            clean = AList.update ''asset'' (JObj [(''version'', JStr ''2.0'')]) patched
          \<and> map_of clean ''asset'' = Some (JObj [(''version'', JStr ''2.0'')])
          \<and> asset_version (JObj clean) = Some (JStr ''2.0''))
      \<and> (truthy_opt (map_of doc ''asset'') \<longrightarrow>
            clean = patched
          \<and> map_of clean ''asset'' = map_of doc ''asset''
          \<and> asset_version (JObj clean) = asset_version (JObj doc))"
proof -
  from convert_serialized [OF assms(1)] obtain patched st clean where
    c: "collect env (JObj doc) = Inr (patched, st)"
    and s: "serialized_document env (JObj doc) = Inr clean"
    and g: "glb = container env clean (Buffer_concat (binaryChunks st)) (length glb)"
    by blast
  from collect_closed [OF c] obtain vs0 where p: "patched = JObj (patched_document env doc vs0)"
    by blast
  have a: "map_of (patched_document env doc vs0) ''asset'' = map_of doc ''asset''"
    by (rule patched_document_other) simp_all
  show ?thesis
  proof (cases "truthy_opt (map_of doc ''asset'')")
    case True
    with s c have "clean = JObj (patched_document env doc vs0)"
      by (simp add: serialized_document_def p cleanGltf_def a)
    with s g c p a True show ?thesis
      by (auto simp: asset_version_def)
  next
    case False
    with s c have "clean = JObj (AList.update ''asset'' default_asset (patched_document env doc vs0))"
      by (simp add: serialized_document_def p cleanGltf_def a)
    with s g c p False show ?thesis
      by (auto simp: update_conv' default_asset_def asset_version_def)
  qed
qed

lemma no_version_collect:
  "collect (node_with []) (JObj no_version_gltf)
     = Inr (JObj no_version_gltf,
            \<lparr>modifiedGltf = no_version_gltf, binaryChunks = [], totalSize = 0\<rparr>)"
  by (simp add: no_version_gltf_def collect_eval)

text \<open>
  Counterexample to claim C8 as stated: the input \<^verbatim>\<open>{"asset": {"generator": "exporter"}}\<close>
  has no \<^verbatim>\<open>asset.version\<close>, and the JSON chunk of its container is the same document,
  still without one.
\<close>

theorem asset_version_counterexample:
  "asset_version (JObj no_version_gltf) = None
   \<and> serialized_document (node_with []) (JObj no_version_gltf) = Inr (JObj no_version_gltf)
   \<and> convertGLTFToGLB (node_with []) (JObj no_version_gltf)
       = Inr (container (node_with []) (JObj no_version_gltf) [] 56)
   \<and> asset_version (JObj no_version_gltf) \<noteq> Some (JStr ''2.0'')"
proof -
  have v: "asset_version (JObj no_version_gltf) = None"
    by (simp add: asset_version_def no_version_gltf_def)
  have cl: "cleanGltf (JObj no_version_gltf) = Inr (JObj no_version_gltf)"
    by (simp add: cleanGltf_def no_version_gltf_def)
  have s: "serialized_document (node_with []) (JObj no_version_gltf) = Inr (JObj no_version_gltf)"
    by (simp add: serialized_document_def no_version_collect cl)
  have "length (stringify (node_with []) (JObj no_version_gltf)) = 34"
    by (simp add: node_with_def utf8_def no_version_gltf_def quote_def escape_char_def)
  then have "container_length (node_with []) (JObj no_version_gltf) [] = 56"
    by (simp add: container_length_def json_payload_def padding4_def)
  then have "convertGLTFToGLB (node_with []) (JObj no_version_gltf)
       = Inr (container (node_with []) (JObj no_version_gltf) [] 56)"
    by (simp add: convertGLTFToGLB_def no_version_collect createGLB_eq [OF cl])
  with v s show ?thesis by simp
qed

theorem asset_added_exactly_when_absent_witness:
  "convertGLTFToGLB (node_with []) (JObj no_asset_gltf)
       = Inr (container (node_with []) (JObj no_asset_clean) [] 60)
   \<and> map_of no_asset_gltf ''asset'' = None
   \<and> serialized_document (node_with []) (JObj no_asset_gltf) = Inr (JObj no_asset_clean)
   \<and> asset_version (JObj no_asset_clean) = Some (JStr ''2.0'')
   \<and> convertGLTFToGLB (node_with []) (JObj no_version_gltf)
       = Inr (container (node_with []) (JObj no_version_gltf) [] 56)
   \<and> map_of no_version_gltf ''asset'' = Some (JObj [(''generator'', JStr ''exporter'')])
   \<and> serialized_document (node_with []) (JObj no_version_gltf) = Inr (JObj no_version_gltf)"
proof -
  have c: "collect (node_with []) (JObj no_asset_gltf)
     = Inr (JObj no_asset_gltf, \<lparr>modifiedGltf = no_asset_gltf, binaryChunks = [], totalSize = 0\<rparr>)"
    by (simp add: no_asset_gltf_def collect_eval)
  have cl: "cleanGltf (JObj no_asset_gltf) = Inr (JObj no_asset_clean)"
    by (simp add: cleanGltf_def no_asset_gltf_def no_asset_clean_def default_asset_def)
  have "length (stringify (node_with []) (JObj no_asset_clean)) = 39"
    by (simp add: node_with_def utf8_def no_asset_clean_def quote_def escape_char_def)
  then have "container_length (node_with []) (JObj no_asset_clean) [] = 60"
    by (simp add: container_length_def json_payload_def padding4_def)
  then have g: "convertGLTFToGLB (node_with []) (JObj no_asset_gltf)
       = Inr (container (node_with []) (JObj no_asset_clean) [] 60)"
    by (simp add: convertGLTFToGLB_def c createGLB_eq [OF cl])
  have a: "\<not> truthy_opt (map_of no_asset_gltf ''asset'')"
    by (simp add: no_asset_gltf_def)
  from asset_added_exactly_when_absent [OF g] a obtain patched clean st where
    p0: "collect (node_with []) (JObj no_asset_gltf) = Inr (JObj patched, st)"
    and s0: "serialized_document (node_with []) (JObj no_asset_gltf) = Inr (JObj clean)"
    and u0: "clean = AList.update ''asset'' (JObj [(''version'', JStr ''2.0'')]) patched"
    and v0: "asset_version (JObj clean) = Some (JStr ''2.0'')"
    by blast
  from p0 have "patched = no_asset_gltf"
    by (simp add: c)
  with u0 have "clean = no_asset_clean"
    by (simp add: no_asset_clean_def no_asset_gltf_def)
  with s0 v0
  have s: "serialized_document (node_with []) (JObj no_asset_gltf) = Inr (JObj no_asset_clean)"
    and v: "asset_version (JObj no_asset_clean) = Some (JStr ''2.0'')"
    by simp_all
  have c': "collect (node_with []) (JObj no_version_gltf)
     = Inr (JObj no_version_gltf,
            \<lparr>modifiedGltf = no_version_gltf, binaryChunks = [], totalSize = 0\<rparr>)"
    by (simp add: no_version_gltf_def collect_eval)
  have cl': "cleanGltf (JObj no_version_gltf) = Inr (JObj no_version_gltf)"
    by (simp add: cleanGltf_def no_version_gltf_def)
  have "length (stringify (node_with []) (JObj no_version_gltf)) = 34"
    by (simp add: node_with_def utf8_def no_version_gltf_def quote_def escape_char_def)
  then have "container_length (node_with []) (JObj no_version_gltf) [] = 56"
    by (simp add: container_length_def json_payload_def padding4_def)
  then have g': "convertGLTFToGLB (node_with []) (JObj no_version_gltf)
       = Inr (container (node_with []) (JObj no_version_gltf) [] 56)"
    by (simp add: convertGLTFToGLB_def c' createGLB_eq [OF cl'])
  have a': "truthy_opt (map_of no_version_gltf ''asset'')"
    by (simp add: no_version_gltf_def)
  from asset_added_exactly_when_absent [OF g'] a' obtain patched' clean' st' where
    p1: "collect (node_with []) (JObj no_version_gltf) = Inr (JObj patched', st')"
    and s1: "serialized_document (node_with []) (JObj no_version_gltf) = Inr (JObj clean')"
    and u1: "clean' = patched'"
    by blast
  from p1 u1 have "clean' = no_version_gltf"
    by (simp add: c')
  with s1
  have s': "serialized_document (node_with []) (JObj no_version_gltf) = Inr (JObj no_version_gltf)"
    by simp
  from g s v g' s' show ?thesis by (simp add: no_asset_gltf_def no_version_gltf_def)
qed

lemma no_files:
  "(\<And>entry. entry \<in> set entries \<Longrightarrow> loaded env entry = None) \<Longrightarrow> files env entries = []"
  by (induction entries) simp_all

lemma patch_all_no_files: "files env bs = [] \<Longrightarrow> patch_all env i bs t v = Inr v"
  by (induction bs arbitrary: i) (auto split: option.splits)

lemma set_images_triv: "set_images (entries_of (map_of doc ''images'')) doc = doc"
  by (auto simp: set_images_def split: option.splits json.splits simp: update_triv)

lemma collapse_buffers_idem:
  "collapse_buffers c t (collapse_buffers c t' doc) = collapse_buffers c t doc"
  by (simp add: collapse_buffers_def)

lemma patched_document_no_files:
  assumes "files env (entries_of (map_of doc ''buffers'')) = []"
    and "files env (entries_of (map_of doc ''images'')) = []"
  shows "patched_document env doc (entries_of (map_of doc ''bufferViews''))
     = collapse_buffers (has_entries (map_of doc ''buffers'')) 0 doc"
proof -
  let ?c = "has_entries (map_of doc ''buffers'')"
  have i: "map_of (collapse_buffers ?c 0 doc) ''images'' = map_of doc ''images''"
    by (simp add: map_of_collapse_buffers)
  have "set_images (entries_of (map_of doc ''images'')) (collapse_buffers ?c 0 doc)
      = collapse_buffers ?c 0 doc"
    using set_images_triv [of "collapse_buffers ?c 0 doc"] by (simp add: i)
  then show ?thesis
    by (simp add: patched_document_def Let_def assms image_views_no_files
        patched_images_no_files set_views_triv add_image_views_def collapse_buffers_idem)
qed

lemma cleanGltf_with_asset: "cleanGltf (JObj d) = Inr (JObj (with_asset d))"
  by (simp add: cleanGltf_def with_asset_def default_asset_def)

lemma with_asset_collapse:
  "AList.delete ''buffers'' (with_asset (collapse_buffers c t doc))
     = AList.delete ''buffers'' (with_asset doc)"
  by (simp add: with_asset_def collapse_buffers_def update_conv' delete_update delete_update_same)

lemma no_external_files:
  assumes "collect env (JObj doc) = Inr (patched, st)"
    and "\<And>entry. entry \<in> set (entries_of (map_of doc ''buffers'') @ entries_of (map_of doc ''images''))
           \<Longrightarrow> external_uri entry = Inr None"
  shows "patched = JObj (collapse_buffers (has_entries (map_of doc ''buffers'')) 0 doc)"
    and "binaryChunks st = []"
proof -
  have l: "loaded env entry = None"
    if "entry \<in> set (entries_of (map_of doc ''buffers'') @ entries_of (map_of doc ''images''))"
    for entry
    using assms(2) [OF that] by (simp add: loaded_def)
  have fb: "files env (entries_of (map_of doc ''buffers'')) = []"
    by (rule no_files) (simp add: l)
  have fi: "files env (entries_of (map_of doc ''images'')) = []"
    by (rule no_files) (simp add: l)
  have pa: "patch_all env 0 (entries_of (map_of doc ''buffers'')) 0 = Inr"
    by (rule ext) (simp add: patch_all_no_files fb)
  from collect_closed [OF assms(1)] have
    p: "patched = JObj (patched_document env doc (entries_of (map_of doc ''bufferViews'')))"
    and ch: "binaryChunks st = []"
    by (auto simp: pa fb fi)
  from p show "patched = JObj (collapse_buffers (has_entries (map_of doc ''buffers'')) 0 doc)"
    by (simp add: patched_document_no_files [OF fb fi])
  from ch show "binaryChunks st = []" .
qed

text \<open>
  Claim C7, corrected. The claim says that a document with no external file is serialized
  unmodified. \<^verbatim>\<open>createGLB\<close> adds \<^verbatim>\<open>asset\<close> when the document has none, so the JSON chunk of
  such a document is not the input. For every document that is an object, in which every
  entry of \<^verbatim>\<open>buffers\<close> and of \<^verbatim>\<open>images\<close> has a \<^verbatim>\<open>data:\<close> URI or none, and every conversion that
  returns: the container is the header and the JSON chunk, with no BIN chunk; the JSON
  chunk is the serialized document padded with spaces; outside the property
  \<^verbatim>\<open>buffers\<close>, the serialized document is the input with \<^verbatim>\<open>asset: {version: "2.0"}\<close> added
  when the input has no \<^verbatim>\<open>asset\<close>; and it is so for \<^verbatim>\<open>buffers\<close> too when the input has no
  buffer entry. What becomes of a non-empty \<^verbatim>\<open>buffers\<close> array is not part of this statement.
\<close>

theorem data_uri_documents:
  assumes "convertGLTFToGLB env (JObj doc) = Inr glb"
    and "\<forall>entry \<in> set (entries_of (map_of doc ''buffers'') @ entries_of (map_of doc ''images'')).
           external_uri entry = Inr None"
  shows "\<exists>clean.
         serialized_document env (JObj doc) = Inr (JObj clean)
       \<and> glb = uint32le 0x46546C67 @ uint32le 2 @ uint32le (length glb)
               @ uint32le (length (json_payload env (JObj clean))) @ uint32le 0x4E4F534A
               @ stringify env (JObj clean)
               @ replicate (padding4 (length (stringify env (JObj clean)))) 0x20
       \<and> AList.delete ''buffers'' clean = AList.delete ''buffers'' (with_asset doc)
       \<and> (\<not> has_entries (map_of doc ''buffers'') \<longrightarrow> clean = with_asset doc)"
proof -
  from convert_serialized [OF assms(1)] obtain patched st clean where
    c: "collect env (JObj doc) = Inr (patched, st)"
    and s: "serialized_document env (JObj doc) = Inr clean"
    and g: "glb = container env clean (Buffer_concat (binaryChunks st)) (length glb)"
    by blast
  let ?d = "collapse_buffers (has_entries (map_of doc ''buffers'')) 0 doc"
  from no_external_files [OF c] assms(2) have p: "patched = JObj ?d" and ch: "binaryChunks st = []"
    by blast+
  from s c have cl: "clean = JObj (with_asset ?d)"
    by (simp add: serialized_document_def p cleanGltf_with_asset)
  have 1: "AList.delete ''buffers'' (with_asset ?d) = AList.delete ''buffers'' (with_asset doc)"
    by (rule with_asset_collapse)
  have 2: "with_asset ?d = with_asset doc" if "\<not> has_entries (map_of doc ''buffers'')"
    using that by (simp add: collapse_buffers_def)
  from g have "glb = uint32le 0x46546C67 @ uint32le 2 @ uint32le (length glb)
               @ uint32le (length (json_payload env (JObj (with_asset ?d)))) @ uint32le 0x4E4F534A
               @ stringify env (JObj (with_asset ?d))
               @ replicate (padding4 (length (stringify env (JObj (with_asset ?d))))) 0x20"
    by (simp add: cl ch container_def json_payload_def)
  with s cl 1 2 show ?thesis by blast
qed

lemma data_image_external_uri: "external_uri data_image = Inr None"
  by (simp add: data_image_def external_uri_def)

lemma data_image_collect:
  "collect (node_with []) (JObj data_image_gltf)
     = Inr (JObj data_image_gltf,
            \<lparr>modifiedGltf = data_image_gltf, binaryChunks = [], totalSize = 0\<rparr>)"
  by (simp add: data_image_gltf_def data_image_def collect_eval)

lemma data_image_cleanGltf: "cleanGltf (JObj data_image_gltf) = Inr (JObj data_image_clean)"
  by (simp add: cleanGltf_def data_image_gltf_def data_image_clean_def default_asset_def)

lemma data_image_serialized:
  "serialized_document (node_with []) (JObj data_image_gltf) = Inr (JObj data_image_clean)"
  by (simp add: serialized_document_def data_image_collect data_image_cleanGltf)

lemma data_image_convert:
  "convertGLTFToGLB (node_with []) (JObj data_image_gltf)
     = Inr (container (node_with []) (JObj data_image_clean) [] 96)"
proof -
  have "length (stringify (node_with []) (JObj data_image_clean)) = 75"
    by (simp add: node_with_def utf8_def data_image_clean_def data_image_def quote_def
        escape_char_def)
  then have "container_length (node_with []) (JObj data_image_clean) [] = 96"
    by (simp add: container_length_def json_payload_def padding4_def)
  then show ?thesis
    by (simp add: convertGLTFToGLB_def data_image_collect createGLB_eq [OF data_image_cleanGltf])
qed

text \<open>
  Counterexample to claim C7 as stated: the only image of
  \<^verbatim>\<open>{"images": [{"uri": "data:image/png;base64,AAAA"}]}\<close> uses a \<^verbatim>\<open>data:\<close> URI, and the
  JSON chunk of its container is not the input: it has the property \<^verbatim>\<open>asset\<close> as well.
\<close>

theorem data_uri_unmodified_counterexample:
  "external_uri data_image = Inr None
   \<and> convertGLTFToGLB (node_with []) (JObj data_image_gltf)
       = Inr (container (node_with []) (JObj data_image_clean) [] 96)
   \<and> serialized_document (node_with []) (JObj data_image_gltf) = Inr (JObj data_image_clean)
   \<and> JObj data_image_clean \<noteq> JObj data_image_gltf
   \<and> stringify (node_with []) (JObj data_image_clean)
       \<noteq> stringify (node_with []) (JObj data_image_gltf)"
proof -
  have "JObj data_image_clean \<noteq> JObj data_image_gltf"
    by (simp add: data_image_clean_def data_image_gltf_def)
  moreover have "length (stringify (node_with []) (JObj data_image_clean)) = 75"
    by (simp add: node_with_def utf8_def data_image_clean_def data_image_def quote_def
        escape_char_def)
  moreover have "length (stringify (node_with []) (JObj data_image_gltf)) = 49"
    by (simp add: node_with_def utf8_def data_image_gltf_def data_image_def quote_def
        escape_char_def)
  ultimately show ?thesis
    using data_image_external_uri data_image_convert data_image_serialized by auto
qed

theorem data_uri_documents_witness:
  "convertGLTFToGLB (node_with []) (JObj data_image_gltf)
       = Inr (container (node_with []) (JObj data_image_clean) [] 96)
   \<and> external_uri data_image = Inr None
   \<and> \<not> has_entries (map_of data_image_gltf ''buffers'')
   \<and> with_asset data_image_gltf = data_image_clean
   \<and> serialized_document (node_with []) (JObj data_image_gltf)
       = Inr (JObj (with_asset data_image_gltf))"
proof -
  have e: "\<forall>entry \<in> set (entries_of (map_of data_image_gltf ''buffers'')
              @ entries_of (map_of data_image_gltf ''images'')). external_uri entry = Inr None"
    by (simp add: data_image_gltf_def data_image_external_uri)
  have h: "\<not> has_entries (map_of data_image_gltf ''buffers'')"
    by (simp add: data_image_gltf_def)
  have d: "with_asset data_image_gltf = data_image_clean"
    by (simp add: with_asset_def data_image_gltf_def data_image_clean_def)
  from data_uri_documents [OF data_image_convert e] h
  have "serialized_document (node_with []) (JObj data_image_gltf)
          = Inr (JObj (with_asset data_image_gltf))"
    by auto
  with data_image_convert data_image_external_uri h d show ?thesis by simp
qed

text \<open>
  A non-empty \<^verbatim>\<open>buffers\<close> array is replaced by one entry that has only \<^verbatim>\<open>byteLength\<close>, also
  when no file was read: the serialized document of
  \<^verbatim>\<open>{"asset": {"version": "2.0"}, "buffers": [{"uri": "data:...", "byteLength": 3}]}\<close> has
  \<^verbatim>\<open>"buffers": [{"byteLength": 0}]\<close>, and the container has no BIN chunk.
\<close>

lemma data_uri_buffers_collapsed:
  "external_uri data_buffer = Inr None
   \<and> serialized_document (node_with []) (JObj data_gltf) = Inr (JObj data_serialized)
   \<and> convertGLTFToGLB (node_with []) (JObj data_gltf)
       = Inr (container (node_with []) (JObj data_serialized) [] 76)"
proof -
  have e: "external_uri data_buffer = Inr None"
    by (simp add: data_buffer_def external_uri_def)
  have c: "collect (node_with []) (JObj data_gltf)
     = Inr (JObj data_serialized,
            \<lparr>modifiedGltf = data_serialized, binaryChunks = [], totalSize = 0\<rparr>)"
    by (simp add: data_gltf_def data_buffer_def data_serialized_def collect_eval)
  have cl: "cleanGltf (JObj data_serialized) = Inr (JObj data_serialized)"
    by (simp add: cleanGltf_def data_serialized_def)
  have s: "serialized_document (node_with []) (JObj data_gltf) = Inr (JObj data_serialized)"
    by (simp add: serialized_document_def c cl)
  have "length (stringify (node_with []) (JObj data_serialized)) = 56"
    by (simp add: node_with_def utf8_def data_serialized_def quote_def escape_char_def
        show_int_def decimal_digits)
  then have "container_length (node_with []) (JObj data_serialized) [] = 76"
    by (simp add: container_length_def json_payload_def padding4_def)
  then have "convertGLTFToGLB (node_with []) (JObj data_gltf)
       = Inr (container (node_with []) (JObj data_serialized) [] 76)"
    by (simp add: convertGLTFToGLB_def c createGLB_eq [OF cl])
  with e s show ?thesis by simp
qed

lemma image_views_buffer:
  "v \<in> set (image_views env off imgs) \<Longrightarrow> get_prop v ''buffer'' = Inr (Some (JNum 0))"
  by (induction imgs arbitrary: off) (auto simp: image_view_def split: option.splits)

lemma padded_Nil_iff: "padded d = [] \<longleftrightarrow> d = []"
  by (auto simp: padded_def padding4_def)

lemma bin_payload_region: "bin_payload (concat (map padded ds)) = concat (map padded ds)"
proof -
  have "padding4 (region_length ds) = 0"
    using region_length_mod4 [of ds] by (simp add: padding4_def)
  then show ?thesis by (simp add: bin_payload_def length_concat_padded)
qed

text \<open>
  Claim C10, corrected. The claim promises a non-empty BIN chunk whenever an image file
  is read; \<^verbatim>\<open>createGLB\<close> writes the BIN chunk only when the region has a byte
  (\<^verbatim>\<open>if (binaryChunkLength > 0)\<close>), and an image file may have none. For every document
  that is an object and has no property \<^verbatim>\<open>buffers\<close>, with an image whose external \<^verbatim>\<open>uri\<close>
  names a file that is read and has at least one byte, and every conversion that
  returns: the region, made of the image files that are read, each padded, is not empty;
  the container ends with the BIN chunk header and this region; the serialized document
  has no property \<^verbatim>\<open>buffers\<close>; its buffer views are those of the input followed by one new
  view for each image file that is read, and every new view has \<^verbatim>\<open>buffer\<close> 0.
\<close>

theorem images_without_buffers:
  assumes "convertGLTFToGLB env (JObj doc) = Inr glb"
    and "map_of doc ''buffers'' = None"
    and "map_of doc ''images'' = Some (JArr imgs)"
    and "j < length imgs"
    and "external_uri (imgs ! j) = Inr (Some uri)"
    and "readFile env uri = Some (Inr d)"
    and "d \<noteq> []"
    and "vs = entries_of (map_of doc ''bufferViews'')"
    and "region = concat (map padded (files env imgs))"
  shows "\<exists>clean new.
        serialized_document env (JObj doc) = Inr (JObj clean)
      \<and> region \<noteq> []
      \<and> glb = uint32le 0x46546C67 @ uint32le 2 @ uint32le (length glb)
              @ uint32le (length (json_payload env (JObj clean))) @ uint32le 0x4E4F534A
              @ json_payload env (JObj clean)
              @ uint32le (length region) @ uint32le 0x004E4942 @ region
      \<and> map_of clean ''buffers'' = None
      \<and> map_of clean ''bufferViews'' = Some (JArr (vs @ new))
      \<and> length new = length (files env imgs)
      \<and> new \<noteq> []
      \<and> (\<forall>v \<in> set new. get_prop v ''buffer'' = Inr (Some (JNum 0)))"
proof -
  have l: "loaded env (imgs ! j) = Some d"
    using assms(5,6) by (auto simp: loaded_iff)
  have fs: "files env imgs = files env (take j imgs) @ d # files env (drop (Suc j) imgs)"
    using assms(4) l by (rule files_nth_loaded)
  then have ne: "files env imgs \<noteq> []" by simp
  from fs have "d \<in> set (files env imgs)" by simp
  with assms(7) have r: "region \<noteq> []"
    by (auto simp: assms(9) padded_Nil_iff)
  from convert_serialized [OF assms(1)] obtain patched st clean where
    c: "collect env (JObj doc) = Inr (patched, st)"
    and s: "serialized_document env (JObj doc) = Inr clean"
    and g: "glb = container env clean (Buffer_concat (binaryChunks st)) (length glb)"
    by blast
  from collect_closed [OF c] obtain vs0 where
    m: "map_err (patch_all env 0 (entries_of (map_of doc ''buffers'')) 0) vs = Inr vs0"
    and p: "patched = JObj (patched_document env doc vs0)"
    and ch: "binaryChunks st = concat (map segment (files env imgs))"
    by (auto simp: assms(2,3,8))
  have "patch_all env 0 [] 0 = Inr" by (rule ext) simp
  with m have vs0: "vs0 = vs" by (simp add: assms(2))
  let ?p = "patched_document env doc vs"
  let ?new = "image_views env 0 imgs"
  let ?clean = "with_asset ?p"
  from s c have cl: "clean = JObj ?clean"
    by (simp add: serialized_document_def p vs0 cleanGltf_with_asset)
  have b: "map_of ?clean ''buffers'' = None"
    by (simp add: with_asset_def update_conv' patched_document_buffers assms(2))
  have v: "map_of ?clean ''bufferViews'' = Some (JArr (vs @ ?new))"
    using ne by (simp add: with_asset_def update_conv' patched_document_bufferViews assms(2,3))
  have n: "length ?new = length (files env imgs)" by (rule length_image_views)
  with ne have nn: "?new \<noteq> []" by auto
  have bc: "Buffer_concat (binaryChunks st) = region"
    by (simp add: ch Buffer_concat_segments assms(9))
  have "bin_payload region = region"
    unfolding assms(9) by (rule bin_payload_region)
  with g r have glb: "glb = uint32le 0x46546C67 @ uint32le 2 @ uint32le (length glb)
              @ uint32le (length (json_payload env (JObj ?clean))) @ uint32le 0x4E4F534A
              @ json_payload env (JObj ?clean)
              @ uint32le (length region) @ uint32le 0x004E4942 @ region"
    by (simp add: container_def bc cl)
  show ?thesis
    apply (rule exI [of _ ?clean])
    apply (rule exI [of _ ?new])
    using s cl r glb b v n nn image_views_buffer [of _ env 0 imgs] by blast
qed

lemma image_only_collect:
  "collect example_node (JObj image_only_gltf)
     = Inr (JObj (butlast image_only_clean),
            \<lparr>modifiedGltf = butlast image_only_clean,
             binaryChunks = [FileData example_png, Padding [0]], totalSize = 8\<rparr>)"
  by (simp add: example_node_def example_png_def image_only_gltf_def image_only_clean_def
      collect_eval)

lemma image_only_cleanGltf:
  "cleanGltf (JObj (butlast image_only_clean)) = Inr (JObj image_only_clean)"
  by (simp add: cleanGltf_def image_only_clean_def default_asset_def)

lemma image_only_convert:
  "convertGLTFToGLB example_node (JObj image_only_gltf)
     = Inr (container example_node (JObj image_only_clean) (example_png @ [0]) 176)"
proof -
  have "length (stringify example_node (JObj image_only_clean)) = 137"
    by (simp add: example_node_def node_with_def utf8_def image_only_clean_def quote_def
        escape_char_def show_int_def decimal_digits)
  then have "container_length example_node (JObj image_only_clean) (example_png @ [0]) = 176"
    by (simp add: container_length_def json_payload_def bin_payload_def padding4_def)
  then show ?thesis
    by (simp add: convertGLTFToGLB_def image_only_collect createGLB_eq [OF image_only_cleanGltf])
qed

lemma empty_image_collect:
  "collect empty_image_node (JObj image_only_gltf)
     = Inr (JObj (butlast empty_image_clean),
            \<lparr>modifiedGltf = butlast empty_image_clean,
             binaryChunks = [FileData []], totalSize = 0\<rparr>)"
  by (simp add: empty_image_node_def image_only_gltf_def empty_image_clean_def collect_eval)

lemma empty_image_cleanGltf:
  "cleanGltf (JObj (butlast empty_image_clean)) = Inr (JObj empty_image_clean)"
  by (simp add: cleanGltf_def empty_image_clean_def default_asset_def)

text \<open>
  Counterexample to claim C10 as stated: the document \<^verbatim>\<open>{"images": [{"uri": "i.png"}]}\<close>
  has no \<^verbatim>\<open>buffers\<close>, and its image names a file that exists and has no bytes. The file is
  read and the image gets its buffer view, but the container ends with the JSON chunk:
  it has no BIN chunk.
\<close>

theorem empty_image_no_bin_counterexample:
  "map_of image_only_gltf ''buffers'' = None
   \<and> external_uri (JObj [(''uri'', JStr ''i.png'')]) = Inr (Some ''i.png'')
   \<and> readFile empty_image_node ''i.png'' = Some (Inr [])
   \<and> serialized_document empty_image_node (JObj image_only_gltf) = Inr (JObj empty_image_clean)
   \<and> convertGLTFToGLB empty_image_node (JObj image_only_gltf)
       = Inr (uint32le 0x46546C67 @ uint32le 2 @ uint32le 160
              @ uint32le 140 @ uint32le 0x4E4F534A
              @ json_payload empty_image_node (JObj empty_image_clean))
   \<and> length (json_payload empty_image_node (JObj empty_image_clean)) = 140"
proof -
  have 1: "map_of image_only_gltf ''buffers'' = None"
    by (simp add: image_only_gltf_def)
  have 2: "external_uri (JObj [(''uri'', JStr ''i.png'')]) = Inr (Some ''i.png'')"
    by (simp add: external_uri_def)
  have 3: "readFile empty_image_node ''i.png'' = Some (Inr [])"
    by (simp add: empty_image_node_def node_with_def)
  have 4: "serialized_document empty_image_node (JObj image_only_gltf)
             = Inr (JObj empty_image_clean)"
    by (simp add: serialized_document_def empty_image_collect empty_image_cleanGltf)
  have "length (stringify empty_image_node (JObj empty_image_clean)) = 137"
    by (simp add: empty_image_node_def node_with_def utf8_def empty_image_clean_def quote_def
        escape_char_def show_int_def decimal_digits)
  then have 6: "length (json_payload empty_image_node (JObj empty_image_clean)) = 140"
    by (simp add: json_payload_def padding4_def)
  then have "container_length empty_image_node (JObj empty_image_clean) [] = 160"
    by (simp add: container_length_def)
  then have 5: "convertGLTFToGLB empty_image_node (JObj image_only_gltf)
       = Inr (uint32le 0x46546C67 @ uint32le 2 @ uint32le 160
              @ uint32le 140 @ uint32le 0x4E4F534A
              @ json_payload empty_image_node (JObj empty_image_clean))"
    by (simp add: convertGLTFToGLB_def empty_image_collect createGLB_eq [OF empty_image_cleanGltf]
        container_def 6)
  from 1 2 3 4 5 6 show ?thesis by simp
qed

theorem images_without_buffers_witness:
  "convertGLTFToGLB example_node (JObj image_only_gltf)
     = Inr (container example_node (JObj image_only_clean) (example_png @ [0]) 176)
   \<and> map_of image_only_gltf ''buffers'' = None
   \<and> readFile example_node ''i.png'' = Some (Inr example_png)
   \<and> example_png \<noteq> []
   \<and> serialized_document example_node (JObj image_only_gltf) = Inr (JObj image_only_clean)
   \<and> map_of image_only_clean ''buffers'' = None
   \<and> map_of image_only_clean ''bufferViews''
       = Some (JArr [JObj [(''buffer'', JNum 0), (''byteOffset'', JNum 0),
                           (''byteLength'', JNum 7)]])"
proof -
  have 1: "map_of image_only_gltf ''buffers'' = None"
    by (simp add: image_only_gltf_def)
  have 2: "map_of image_only_gltf ''images'' = Some (JArr [JObj [(''uri'', JStr ''i.png'')]])"
    by (simp add: image_only_gltf_def)
  have 3: "external_uri ([JObj [(''uri'', JStr ''i.png'')]] ! 0) = Inr (Some ''i.png'')"
    by (simp add: external_uri_def)
  have 4: "readFile example_node ''i.png'' = Some (Inr example_png)"
    by (simp add: example_node_def node_with_def)
  have 5: "example_png \<noteq> []"
    by (simp add: example_png_def)
  have s: "serialized_document example_node (JObj image_only_gltf) = Inr (JObj image_only_clean)"
    by (simp add: serialized_document_def image_only_collect image_only_cleanGltf)
  from images_without_buffers [OF image_only_convert 1 2 _ 3 4 5 refl refl]
  obtain clean new where
    "serialized_document example_node (JObj image_only_gltf) = Inr (JObj clean)"
    and b: "map_of clean ''buffers'' = None"
    by auto
  with s have "clean = image_only_clean" by simp
  with b have "map_of image_only_clean ''buffers'' = None" by simp
  with image_only_convert 1 4 5 s show ?thesis
    by (simp add: image_only_clean_def)
qed

lemma separate_refl: "separate (length s0) s0 s0"
  by (simp add: separate_def)

lemma separate_length: "separate n s0 s \<Longrightarrow> n \<le> length s"
  by (simp add: separate_def)

lemma separate_cell: "separate n s0 s \<Longrightarrow> n \<le> a \<Longrightarrow> a < length s \<Longrightarrow> cell_fresh n (s ! a)"
  by (simp add: separate_def)

lemma attemptE:
  assumes "attempt r f = Some (Inr y)"
  obtains x where "r = Inr x" "f x = Some (Inr y)"
  using assms by (cases r) (simp_all add: attempt_def)

lemma afterE:
  assumes "after r f = Some (Inr y)"
  obtains x where "r = Some (Inr x)" "f x = Some (Inr y)"
  using assms by (auto simp: after_def split: option.splits sum.splits)

lemma update_member: "p \<in> set (AList.update k x ps) \<Longrightarrow> p = (k, x) \<or> p \<in> set ps"
  by (induction ps) (auto split: if_splits)

lemma delete_member: "p \<in> set (AList.delete k ps) \<Longrightarrow> p \<in> set ps"
  by (induction ps) (auto split: if_splits)

lemma get_property_fresh:
  assumes "separate n s0 s" "fresh n v" "get_property s v k = Inr (Some x)"
  shows "fresh n x"
proof (cases v)
  case (VRef a)
  with assms(3) obtain ps where a: "a < length s" "s ! a = Object ps" and m: "map_of ps k = Some x"
    by (auto simp: get_property_def split: if_splits cell.splits)
  from assms(2) VRef have "n \<le> a" by simp
  with assms(1) a have "cell_fresh n (Object ps)" by (metis separate_cell)
  with map_of_SomeD [OF m] show ?thesis by force
qed (use assms(3) in \<open>simp_all add: get_property_def\<close>)

lemma element_fresh:
  assumes "separate n s0 s" "fresh n v" "element s v i = Inr x"
  shows "fresh n x"
proof (cases v)
  case (VRef a)
  with assms(3) obtain vs where a: "a < length s" "s ! a = Array vs" and m: "i < length vs" "x = vs ! i"
    by (auto simp: element_def split: if_splits cell.splits)
  from assms(2) VRef have "n \<le> a" by simp
  with assms(1) a have "cell_fresh n (Array vs)" by (metis separate_cell)
  with m show ?thesis by simp
qed (use assms(3) in \<open>auto simp: element_def split: if_splits\<close>)

lemma property_element_fresh:
  assumes "separate n s0 s" "fresh n v" "property_element s v k i = Inr x"
  shows "fresh n x"
  using assms
  by (auto simp: property_element_def split: sum.splits option.splits
      intro: element_fresh get_property_fresh)

lemma separate_update:
  assumes "separate n s0 s" "n \<le> a" "cell_fresh n c"
  shows "separate n s0 (s[a := c])"
  unfolding separate_def
proof (intro conjI allI impI)
  show "n \<le> length (s[a := c])" using assms(1) by (simp add: separate_def)
  show "take n (s[a := c]) = take n s0" using assms(1,2) by (simp add: separate_def)
  fix b assume "n \<le> b" "b < length (s[a := c])"
  with assms(1,3) show "cell_fresh n (s[a := c] ! b)"
    by (cases "b = a") (simp_all add: separate_cell)
qed

lemma set_property_separate:
  assumes "separate n s0 s" "fresh n v" "fresh n x"
    "set_property s v k x = Inr s'"
  shows "separate n s0 s'"
proof (cases v)
  case (VRef a)
  from assms(2) VRef have n: "n \<le> a" by simp
  from assms(4) VRef have a: "a < length s" by (auto simp: set_property_def split: if_splits)
  show ?thesis
  proof (cases "s ! a")
    case (Object ps)
    from assms(1) n a Object have "cell_fresh n (Object ps)" by (metis separate_cell)
    then have "cell_fresh n (Object (AList.update k x ps))"
      using assms(3) by (auto dest!: update_member)
    with assms(1) n have "separate n s0 (s[a := Object (AList.update k x ps)])"
      by (rule separate_update)
    with assms(4) VRef a Object show ?thesis by (simp add: set_property_def)
  next
    case (Array vs)
    with assms(1,4) VRef a show ?thesis by (simp add: set_property_def)
  qed
qed (use assms(4) in \<open>simp_all add: set_property_def\<close>)

lemma delete_property_separate:
  assumes "separate n s0 s" "fresh n v"
  shows "separate n s0 (delete_property s v k)"
proof (cases v)
  case (VRef a)
  from assms(2) VRef have n: "n \<le> a" by simp
  show ?thesis
  proof (cases "a < length s")
    case True
    show ?thesis
    proof (cases "s ! a")
      case (Object ps)
      from assms(1) n True Object have "cell_fresh n (Object ps)"
        by (metis separate_cell)
      then have "cell_fresh n (Object (AList.delete k ps))"
        by (auto dest!: delete_member)
      with assms(1) n have "separate n s0 (s[a := Object (AList.delete k ps)])"
        by (rule separate_update)
      with VRef True Object show ?thesis by (simp add: delete_property_def)
    next
      case (Array vs)
      with assms(1) VRef True show ?thesis by (simp add: delete_property_def)
    qed
  next
    case False
    with assms(1) VRef show ?thesis by (simp add: delete_property_def)
  qed
qed (use assms(1) in \<open>simp_all add: delete_property_def\<close>)

lemma push_separate:
  assumes "separate n s0 s" "fresh n v" "fresh n x" "push s v x = Inr s'"
  shows "separate n s0 s'"
proof (cases v)
  case (VRef a)
  from assms(2) VRef have n: "n \<le> a" by simp
  from assms(4) VRef obtain vs where a: "a < length s" "s ! a = Array vs"
    and s': "s' = s[a := Array (vs @ [x])]"
    by (auto simp: push_def split: if_splits cell.splits)
  from assms(1) n a have "cell_fresh n (Array vs)" by (metis separate_cell)
  then have "cell_fresh n (Array (vs @ [x]))" using assms(3) by auto
  with assms(1) n show ?thesis unfolding s' by (rule separate_update)
qed (use assms(4) in \<open>simp_all add: push_def\<close>)

lemma new_cell_separate:
  assumes "separate n s0 s" "cell_fresh n c" "new_cell s c = (v, s')"
  shows "separate n s0 s' \<and> fresh n v"
proof -
  from assms(3) have v: "v = VRef (length s)" and s': "s' = s @ [c]"
    by (simp_all add: new_cell_def)
  from assms(1) have l: "n \<le> length s" by (rule separate_length)
  have "separate n s0 (s @ [c])"
    unfolding separate_def
  proof (intro conjI allI impI)
    show "n \<le> length (s @ [c])" using l by simp
    show "take n (s @ [c]) = take n s0" using assms(1) l by (simp add: separate_def)
    fix b assume "n \<le> b" "b < length (s @ [c])"
    with assms(1,2) show "cell_fresh n ((s @ [c]) ! b)"
      by (cases "b = length s") (simp_all add: nth_append separate_cell)
  qed
  with v s' l show ?thesis by simp
qed

lemma JSON_parse_separate:
  "separate n s0 s \<Longrightarrow> JSON_parse j s = (v, s') \<Longrightarrow> separate n s0 s' \<and> fresh n v"
  "separate n s0 s \<Longrightarrow> parse_elements xs s = (vs, s') \<Longrightarrow>
     separate n s0 s' \<and> (\<forall>v \<in> set vs. fresh n v)"
  "separate n s0 s \<Longrightarrow> parse_members kvs s = (ps, s') \<Longrightarrow>
     separate n s0 s' \<and> (\<forall>p \<in> set ps. fresh n (snd p))"
proof (induction j s and xs s and kvs s arbitrary: v s' and vs s' and ps s'
    rule: JSON_parse_parse_elements_parse_members.induct)
  case (5 xs s)
  obtain vs s1 where p: "parse_elements xs s = (vs, s1)" by force
  from 5(1) [OF 5(2) p] have "separate n s0 s1" "cell_fresh n (Array vs)" by simp_all
  moreover from 5(3) p have "new_cell s1 (Array vs) = (v, s')" by simp
  ultimately show ?case by (rule new_cell_separate)
next
  case (6 kvs s)
  obtain ps s1 where p: "parse_members kvs s = (ps, s1)" by force
  from 6(1) [OF 6(2) p] have "separate n s0 s1" "cell_fresh n (Object ps)" by simp_all
  moreover from 6(3) p have "new_cell s1 (Object ps) = (v, s')" by simp
  ultimately show ?case by (rule new_cell_separate)
next
  case (8 x xs s)
  obtain v1 s1 where p1: "JSON_parse x s = (v1, s1)" by force
  obtain vs2 s2 where p2: "parse_elements xs s1 = (vs2, s2)" by force
  from 8(1) [OF 8(3) p1] have 1: "separate n s0 s1" "fresh n v1" by simp_all
  from 8(2) [OF p1 [symmetric] 1(1) p2]
  have 2: "separate n s0 s2" "\<forall>v \<in> set vs2. fresh n v" by simp_all
  from 8(4) p1 p2 have "vs = v1 # vs2" "s' = s2" by simp_all
  with 1 2 show ?case by simp
next
  case (10 k x kvs s)
  obtain v1 s1 where p1: "JSON_parse x s = (v1, s1)" by force
  obtain ps2 s2 where p2: "parse_members kvs s1 = (ps2, s2)" by force
  from 10(1) [OF 10(3) p1] have 1: "separate n s0 s1" "fresh n v1" by simp_all
  from 10(2) [OF p1 [symmetric] 1(1) p2]
  have 2: "separate n s0 s2" "\<forall>p \<in> set ps2. fresh n (snd p)" by simp_all
  from 10(4) p1 p2 have "ps = (k, v1) # ps2" "s' = s2" by simp_all
  with 1 2 show ?case by simp
qed auto

lemma for_index_invariant_aux:
  assumes "for_index len body i acc s = Some y"
  shows "\<forall>acc' s'. y = Inr (acc', s') \<longrightarrow> P s \<longrightarrow>
      (\<forall>i acc s acc' s'. P s \<longrightarrow> body i acc s = Some (Inr (acc', s')) \<longrightarrow> P s') \<longrightarrow> P s'"
proof -
  let ?Q = "\<lambda>(len :: store \<Rightarrow> error + nat)
      (body :: nat \<Rightarrow> 'a \<Rightarrow> store \<Rightarrow> (error + 'a \<times> store) option)
      (i :: nat) (acc :: 'a) (s :: store) (y :: error + 'a \<times> store).
      \<forall>acc' s'. y = Inr (acc', s') \<longrightarrow> P s \<longrightarrow>
        (\<forall>i acc s acc' s'. P s \<longrightarrow> body i acc s = Some (Inr (acc', s')) \<longrightarrow> P s') \<longrightarrow> P s'"
  show ?thesis
  proof (rule for_index.raw_induct [where P = ?Q, OF _ assms])
    fix loop len body i acc s y
    assume IH: "\<And>len body i acc s y. loop len body i acc s = Some y \<Longrightarrow> ?Q len body i acc s y"
      and eq: "(case len s of Inl e \<Rightarrow> Some (Inl e)
        | Inr n \<Rightarrow>
          if i < n
          then case body i acc s of None \<Rightarrow> None
               | Some (Inl e) \<Rightarrow> Some (Inl e)
               | Some (Inr (acc', s')) \<Rightarrow> loop len body (Suc i) acc' s'
          else Some (Inr (acc, s))) = Some y"
    show "?Q len body i acc s y"
    proof (intro allI impI)
      fix acc' s'
      assume y: "y = Inr (acc', s')" and P: "P s"
        and step: "\<forall>i acc s acc' s'. P s \<longrightarrow> body i acc s = Some (Inr (acc', s')) \<longrightarrow> P s'"
      from eq obtain n where n: "len s = Inr n"
        by (cases "len s") (simp_all add: y)
      show "P s'"
      proof (cases "i < n")
        case True
        with eq n obtain acc1 s1 where b: "body i acc s = Some (Inr (acc1, s1))"
          and l: "loop len body (Suc i) acc1 s1 = Some y"
          by (auto simp: y split: option.splits sum.splits)
        from step P b have "P s1" by blast
        with IH [OF l] y step show ?thesis by blast
      next
        case False
        with eq n y P show ?thesis by simp
      qed
    qed
  qed
qed

lemma for_index_invariant:
  assumes "for_index len body i acc s = Some (Inr (acc', s'))"
    and "P s"
    and "\<And>i acc s acc' s'. P s \<Longrightarrow> body i acc s = Some (Inr (acc', s')) \<Longrightarrow> P s'"
  shows "P s'"
  using for_index_invariant_aux [OF assms(1), of P] assms(2,3) by blast

lemma retarget_separate:
  assumes "separate n s0 s" "fresh n v" "retarget i start v s = Inr s'"
  shows "separate n s0 s'"
proof (cases "get_property s v ''buffer'' = Inr (Some (VNum (int i)))")
  case True
  with assms(3) obtain off x s1 where
    "offset_sum off start = Inr x"
    and 1: "set_property s v ''byteOffset'' x = Inr s1"
    and 2: "set_property s1 v ''buffer'' (VNum 0) = Inr s'"
    by (auto simp: retarget_def split: sum.splits)
  then have "fresh n x" by (cases "(off, start)" rule: offset_sum.cases) (auto split: if_splits)
  with set_property_separate [OF assms(1,2) _ 1] have "separate n s0 s1" by simp
  from set_property_separate [OF this assms(2) _ 2] show ?thesis by simp
next
  case False
  with assms(1,3) show ?thesis by (auto simp: retarget_def split: sum.splits if_splits)
qed

lemma retarget_views_separate:
  assumes "separate n s0 s" "fresh n m" "retarget_views m i start s = Some (Inr s')"
  shows "separate n s0 s'"
proof -
  from assms(3) obtain bufferViews where
    g: "get_property s m ''bufferViews'' = Inr bufferViews"
    and r: "(case bufferViews of
         None \<Rightarrow> Some (Inr s)
       | Some views \<Rightarrow>
           if \<not> truthy_val views then Some (Inr s)
           else if is_array s views then
             after (for_index (\<lambda>s. loop_length s views)
                      (\<lambda>j u s. attempt (element s views j) (\<lambda>bufferView.
                                 attempt (retarget i start bufferView s) (\<lambda>s'.
                                   Some (Inr (u, s')))))
                      0 () s)
               (\<lambda>(u, s'). Some (Inr s'))
           else (case views of VStr str \<Rightarrow> Some (Inr s) | _ \<Rightarrow> Some (Inl TypeError)))
        = Some (Inr s')"
    unfolding retarget_views_def by (rule attemptE)
  show ?thesis
  proof (cases bufferViews)
    case None
    with r assms(1) show ?thesis by simp
  next
    case (Some views)
    from assms(1,2) g Some have fv: "fresh n views" by (auto intro: get_property_fresh)
    show ?thesis
    proof (cases "truthy_val views \<and> is_array s views")
      case True
      with r Some obtain u where
        l: "for_index (\<lambda>s. loop_length s views)
                      (\<lambda>j u s. attempt (element s views j) (\<lambda>bufferView.
                                 attempt (retarget i start bufferView s) (\<lambda>s'.
                                   Some (Inr (u, s')))))
                      0 () s = Some (Inr (u, s'))"
        by (auto elim!: afterE)
      show ?thesis
      proof (rule for_index_invariant [OF l, of "separate n s0"])
        show "separate n s0 s" by (rule assms(1))
      next
        fix j u s1 u' s2
        assume a: "separate n s0 s1"
          and b: "attempt (element s1 views j) (\<lambda>bufferView.
                    attempt (retarget i start bufferView s1) (\<lambda>s'. Some (Inr (u, s'))))
                  = Some (Inr (u', s2))"
        from b obtain bufferView where e: "element s1 views j = Inr bufferView"
          and c: "attempt (retarget i start bufferView s1) (\<lambda>s'. Some (Inr (u, s')))
                  = Some (Inr (u', s2))"
          by (rule attemptE)
        from c have "retarget i start bufferView s1 = Inr s2"
          by (auto elim!: attemptE)
        moreover from a fv e have "fresh n bufferView" by (rule element_fresh)
        ultimately show "separate n s0 s2" using a by (auto intro: retarget_separate)
      qed
    next
      case False
      with r Some assms(1) show ?thesis
        by (auto split: if_splits val.splits)
    qed
  qed
qed

lemma buffers_step_separate:
  assumes "separate n s0 s" "fresh n m" "buffers_step env m i acc s = Some (Inr (acc', s'))"
  shows "separate n s0 s'"
proof -
  from assms(3) obtain buffer where
    b: "property_element s m ''buffers'' i = Inr buffer"
    and r0: "attempt (uri_guard s buffer) (\<lambda>guard. case guard of
         None \<Rightarrow> Some (Inr (acc, s))
       | Some uri \<Rightarrow>
           (case readFile env uri of
              None \<Rightarrow> Some (Inr (acc, s))
            | Some (Inl e) \<Rightarrow> Some (Inl e)
            | Some (Inr bufferData) \<Rightarrow>
                after (retarget_views m i (snd acc) s) (\<lambda>s'.
                  Some (Inr (grow bufferData acc, delete_property s' buffer ''uri''))))) = Some (Inr (acc', s'))"
    unfolding buffers_step_def by (rule attemptE)
  from r0 obtain guard where "uri_guard s buffer = Inr guard"
    and r: "(case guard of
         None \<Rightarrow> Some (Inr (acc, s))
       | Some uri \<Rightarrow>
           (case readFile env uri of
              None \<Rightarrow> Some (Inr (acc, s))
            | Some (Inl e) \<Rightarrow> Some (Inl e)
            | Some (Inr bufferData) \<Rightarrow>
                after (retarget_views m i (snd acc) s) (\<lambda>s'.
                  Some (Inr (grow bufferData acc, delete_property s' buffer ''uri'')))))
         = Some (Inr (acc', s'))"
    by (rule attemptE)
  from assms(1,2) b have fb: "fresh n buffer" by (rule property_element_fresh)
  show ?thesis
  proof (cases guard)
    case None
    with r assms(1) show ?thesis by simp
  next
    case (Some uri)
    show ?thesis
    proof (cases "readFile env uri")
      case None
      with r Some assms(1) show ?thesis by simp
    next
      case (Some res)
      show ?thesis
      proof (cases res)
        case (Inl e)
        with r \<open>guard = Some uri\<close> Some show ?thesis by simp
      next
        case (Inr bufferData)
        with r \<open>guard = Some uri\<close> Some obtain s1 where
          v: "retarget_views m i (snd acc) s = Some (Inr s1)"
          and s': "s' = delete_property s1 buffer ''uri''"
          by (auto elim!: afterE)
        from assms(1,2) v have "separate n s0 s1" by (rule retarget_views_separate)
        then show ?thesis unfolding s' using fb by (rule delete_property_separate)
      qed
    qed
  qed
qed

lemma buffers_pass_separate:
  assumes "separate n s0 s" "fresh n m" "buffers_pass env m acc s = Some (Inr (acc', s'))"
  shows "separate n s0 s'"
proof -
  from assms(3) obtain buffers where
    "get_property s m ''buffers'' = Inr buffers"
    and r: "(if \<not> truthy_val_opt buffers then Some (Inr (acc, s))
       else
         after (for_index (\<lambda>s. property_length s m ''buffers'')
                  (buffers_step env m) 0 acc s) (\<lambda>(acc', s1).
         attempt (property_length s1 m ''buffers'') (\<lambda>k.
           if k > 0 then
             (case new_cell s1 (Object [(''byteLength'', VNum (int (snd acc')))]) of
                (buffer0, s2) \<Rightarrow>
                  (case new_cell s2 (Array [buffer0]) of
                     (buffers', s3) \<Rightarrow>
                       attempt (set_property s3 m ''buffers'' buffers') (\<lambda>s4.
                         Some (Inr (acc', s4)))))
           else Some (Inr (acc', s1))))) = Some (Inr (acc', s'))"
    unfolding buffers_pass_def by (rule attemptE)
  show ?thesis
  proof (cases "truthy_val_opt buffers")
    case False
    with r assms(1) show ?thesis by simp
  next
    case True
    with r have r': "after (for_index (\<lambda>s. property_length s m ''buffers'')
                  (buffers_step env m) 0 acc s) (\<lambda>(acc', s1).
         attempt (property_length s1 m ''buffers'') (\<lambda>k.
           if k > 0 then
             (case new_cell s1 (Object [(''byteLength'', VNum (int (snd acc')))]) of
                (buffer0, s2) \<Rightarrow>
                  (case new_cell s2 (Array [buffer0]) of
                     (buffers', s3) \<Rightarrow>
                       attempt (set_property s3 m ''buffers'' buffers') (\<lambda>s4.
                         Some (Inr (acc', s4)))))
           else Some (Inr (acc', s1)))) = Some (Inr (acc', s'))" by simp
    from r' obtain x where
      lx: "for_index (\<lambda>s. property_length s m ''buffers'') (buffers_step env m) 0 acc s
            = Some (Inr x)"
      and rx: "(case x of (acc', s1) \<Rightarrow>
         attempt (property_length s1 m ''buffers'') (\<lambda>k.
           if k > 0 then
             (case new_cell s1 (Object [(''byteLength'', VNum (int (snd acc')))]) of
                (buffer0, s2) \<Rightarrow>
                  (case new_cell s2 (Array [buffer0]) of
                     (buffers', s3) \<Rightarrow>
                       attempt (set_property s3 m ''buffers'' buffers') (\<lambda>s4.
                         Some (Inr (acc', s4)))))
           else Some (Inr (acc', s1)))) = Some (Inr (acc', s'))"
      by (rule afterE)
    obtain acc1 s1 where x: "x = (acc1, s1)" by (cases x)
    from lx x have l: "for_index (\<lambda>s. property_length s m ''buffers'') (buffers_step env m) 0 acc s
            = Some (Inr (acc1, s1))" by simp
    from rx x have "attempt (property_length s1 m ''buffers'') (\<lambda>k.
           if k > 0 then
             (case new_cell s1 (Object [(''byteLength'', VNum (int (snd acc1)))]) of
                (buffer0, s2) \<Rightarrow>
                  (case new_cell s2 (Array [buffer0]) of
                     (buffers', s3) \<Rightarrow>
                       attempt (set_property s3 m ''buffers'' buffers') (\<lambda>s4.
                         Some (Inr (acc1, s4)))))
           else Some (Inr (acc1, s1))) = Some (Inr (acc', s'))" by simp
    then obtain k where "property_length s1 m ''buffers'' = Inr k"
      and k: "(if k > 0 then
             (case new_cell s1 (Object [(''byteLength'', VNum (int (snd acc1)))]) of
                (buffer0, s2) \<Rightarrow>
                  (case new_cell s2 (Array [buffer0]) of
                     (buffers', s3) \<Rightarrow>
                       attempt (set_property s3 m ''buffers'' buffers') (\<lambda>s4.
                         Some (Inr (acc1, s4)))))
           else Some (Inr (acc1, s1))) = Some (Inr (acc', s'))"
      by (rule attemptE)
    have 1: "separate n s0 s1"
      by (rule for_index_invariant [OF l, of "separate n s0"])
        (auto intro: assms(1) buffers_step_separate [OF _ assms(2)])
    show ?thesis
    proof (cases "k > 0")
      case False
      with k 1 show ?thesis by simp
    next
      case True
      obtain buffer0 s2 where c2: "new_cell s1 (Object [(''byteLength'', VNum (int (snd acc1)))])
          = (buffer0, s2)" by force
      obtain buffers' s3 where c3: "new_cell s2 (Array [buffer0]) = (buffers', s3)" by force
      from new_cell_separate [OF 1 _ c2] have 2: "separate n s0 s2" "fresh n buffer0" by simp_all
      from new_cell_separate [OF 2(1) _ c3] 2(2)
      have 3: "separate n s0 s3" "fresh n buffers'" by simp_all
      from k True c2 c3 have "set_property s3 m ''buffers'' buffers' = Inr s'"
        by (auto elim!: attemptE)
      from set_property_separate [OF 3(1) assms(2) 3(2) this] show ?thesis .
    qed
  qed
qed

lemma images_step_separate:
  assumes "separate n s0 s" "fresh n m" "images_step env m i acc s = Some (Inr (acc', s'))"
  shows "separate n s0 s'"
proof -
  from assms(3) obtain img where
    b: "property_element s m ''images'' i = Inr img"
    and r0: "attempt (uri_guard s img) (\<lambda>guard. case guard of
         None \<Rightarrow> Some (Inr (acc, s))
       | Some uri \<Rightarrow>
           (case readFile env uri of
              None \<Rightarrow> Some (Inr (acc, s))
            | Some (Inl e) \<Rightarrow> Some (Inl e)
            | Some (Inr imageData) \<Rightarrow>
                attempt (get_property s m ''bufferViews'') (\<lambda>views0.
                attempt (if \<not> truthy_val_opt views0
                         then (case new_cell s (Array []) of
                                 (views', s0) \<Rightarrow> set_property s0 m ''bufferViews'' views')
                         else Inr s) (\<lambda>s1.
                attempt (get_property s1 m ''bufferViews'') (\<lambda>views.
                  case views of
                    None \<Rightarrow> Some (Inl TypeError)
                  | Some bufferViews \<Rightarrow>
                      if \<not> is_array s1 bufferViews then Some (Inl TypeError)
                      else
                        attempt (loop_length s1 bufferViews) (\<lambda>bufferViewIndex.
                          case new_cell s1
                                 (Object [(''buffer'', VNum 0),
                                          (''byteOffset'', VNum (int (snd acc))),
                                          (''byteLength'', VNum (int (length imageData)))]) of
                            (view, s2) \<Rightarrow>
                              attempt (push s2 bufferViews view) (\<lambda>s3.
                              attempt (set_property (delete_property s3 img ''uri'') img
                                         ''bufferView'' (VNum (int bufferViewIndex))) (\<lambda>s4.
                              attempt (set_property s4 img ''mimeType''
                                         (VStr (getMimeType (extname env uri)))) (\<lambda>s5.
                                Some (Inr (grow imageData acc, s5))))))))))) = Some (Inr (acc', s'))"
    unfolding images_step_def by (rule attemptE)
  from r0 obtain guard where "uri_guard s img = Inr guard"
    and r: "(case guard of
         None \<Rightarrow> Some (Inr (acc, s))
       | Some uri \<Rightarrow>
           (case readFile env uri of
              None \<Rightarrow> Some (Inr (acc, s))
            | Some (Inl e) \<Rightarrow> Some (Inl e)
            | Some (Inr imageData) \<Rightarrow>
                attempt (get_property s m ''bufferViews'') (\<lambda>views0.
                attempt (if \<not> truthy_val_opt views0
                         then (case new_cell s (Array []) of
                                 (views', s0) \<Rightarrow> set_property s0 m ''bufferViews'' views')
                         else Inr s) (\<lambda>s1.
                attempt (get_property s1 m ''bufferViews'') (\<lambda>views.
                  case views of
                    None \<Rightarrow> Some (Inl TypeError)
                  | Some bufferViews \<Rightarrow>
                      if \<not> is_array s1 bufferViews then Some (Inl TypeError)
                      else
                        attempt (loop_length s1 bufferViews) (\<lambda>bufferViewIndex.
                          case new_cell s1
                                 (Object [(''buffer'', VNum 0),
                                          (''byteOffset'', VNum (int (snd acc))),
                                          (''byteLength'', VNum (int (length imageData)))]) of
                            (view, s2) \<Rightarrow>
                              attempt (push s2 bufferViews view) (\<lambda>s3.
                              attempt (set_property (delete_property s3 img ''uri'') img
                                         ''bufferView'' (VNum (int bufferViewIndex))) (\<lambda>s4.
                              attempt (set_property s4 img ''mimeType''
                                         (VStr (getMimeType (extname env uri)))) (\<lambda>s5.
                                Some (Inr (grow imageData acc, s5)))))))))))
         = Some (Inr (acc', s'))"
    by (rule attemptE)
  from assms(1,2) b have fi: "fresh n img" by (rule property_element_fresh)
  show ?thesis
  proof (cases guard)
    case None
    with r assms(1) show ?thesis by simp
  next
    case (Some uri)
    show ?thesis
    proof (cases "readFile env uri")
      case None
      with r Some assms(1) show ?thesis by simp
    next
      case (Some res)
      show ?thesis
      proof (cases res)
        case (Inl e)
        with r \<open>guard = Some uri\<close> Some show ?thesis by simp
      next
        case (Inr imageData)
        with r \<open>guard = Some uri\<close> Some have r1:
          "attempt (get_property s m ''bufferViews'') (\<lambda>views0.
                attempt (if \<not> truthy_val_opt views0
                         then (case new_cell s (Array []) of
                                 (views', s0) \<Rightarrow> set_property s0 m ''bufferViews'' views')
                         else Inr s) (\<lambda>s1.
                attempt (get_property s1 m ''bufferViews'') (\<lambda>views.
                  case views of
                    None \<Rightarrow> Some (Inl TypeError)
                  | Some bufferViews \<Rightarrow>
                      if \<not> is_array s1 bufferViews then Some (Inl TypeError)
                      else
                        attempt (loop_length s1 bufferViews) (\<lambda>bufferViewIndex.
                          case new_cell s1
                                 (Object [(''buffer'', VNum 0),
                                          (''byteOffset'', VNum (int (snd acc))),
                                          (''byteLength'', VNum (int (length imageData)))]) of
                            (view, s2) \<Rightarrow>
                              attempt (push s2 bufferViews view) (\<lambda>s3.
                              attempt (set_property (delete_property s3 img ''uri'') img
                                         ''bufferView'' (VNum (int bufferViewIndex))) (\<lambda>s4.
                              attempt (set_property s4 img ''mimeType''
                                         (VStr (getMimeType (extname env uri)))) (\<lambda>s5.
                                Some (Inr (grow imageData acc, s5)))))))))
           = Some (Inr (acc', s'))" by simp
        from r1 obtain views0 where
          "get_property s m ''bufferViews'' = Inr views0"
          and r1a: "attempt (if \<not> truthy_val_opt views0
                         then (case new_cell s (Array []) of
                                 (views', s0) \<Rightarrow> set_property s0 m ''bufferViews'' views')
                         else Inr s) (\<lambda>s1.
                attempt (get_property s1 m ''bufferViews'') (\<lambda>views.
                  case views of
                    None \<Rightarrow> Some (Inl TypeError)
                  | Some bufferViews \<Rightarrow>
                      if \<not> is_array s1 bufferViews then Some (Inl TypeError)
                      else
                        attempt (loop_length s1 bufferViews) (\<lambda>bufferViewIndex.
                          case new_cell s1
                                 (Object [(''buffer'', VNum 0),
                                          (''byteOffset'', VNum (int (snd acc))),
                                          (''byteLength'', VNum (int (length imageData)))]) of
                            (view, s2) \<Rightarrow>
                              attempt (push s2 bufferViews view) (\<lambda>s3.
                              attempt (set_property (delete_property s3 img ''uri'') img
                                         ''bufferView'' (VNum (int bufferViewIndex))) (\<lambda>s4.
                              attempt (set_property s4 img ''mimeType''
                                         (VStr (getMimeType (extname env uri)))) (\<lambda>s5.
                                Some (Inr (grow imageData acc, s5))))))))
           = Some (Inr (acc', s'))"
          by (rule attemptE)
        from r1a obtain s1 where
          e1: "(if \<not> truthy_val_opt views0
                then (case new_cell s (Array []) of
                        (views', s0) \<Rightarrow> set_property s0 m ''bufferViews'' views')
                else Inr s) = Inr s1"
          and r1b: "attempt (get_property s1 m ''bufferViews'') (\<lambda>views.
                  case views of
                    None \<Rightarrow> Some (Inl TypeError)
                  | Some bufferViews \<Rightarrow>
                      if \<not> is_array s1 bufferViews then Some (Inl TypeError)
                      else
                        attempt (loop_length s1 bufferViews) (\<lambda>bufferViewIndex.
                          case new_cell s1
                                 (Object [(''buffer'', VNum 0),
                                          (''byteOffset'', VNum (int (snd acc))),
                                          (''byteLength'', VNum (int (length imageData)))]) of
                            (view, s2) \<Rightarrow>
                              attempt (push s2 bufferViews view) (\<lambda>s3.
                              attempt (set_property (delete_property s3 img ''uri'') img
                                         ''bufferView'' (VNum (int bufferViewIndex))) (\<lambda>s4.
                              attempt (set_property s4 img ''mimeType''
                                         (VStr (getMimeType (extname env uri)))) (\<lambda>s5.
                                Some (Inr (grow imageData acc, s5)))))))
           = Some (Inr (acc', s'))"
          by (rule attemptE)
        from r1b obtain views where
          g0: "get_property s1 m ''bufferViews'' = Inr views"
          and r3: "(case views of
                    None \<Rightarrow> Some (Inl TypeError)
                  | Some bufferViews \<Rightarrow>
                      if \<not> is_array s1 bufferViews then Some (Inl TypeError)
                      else
                        attempt (loop_length s1 bufferViews) (\<lambda>bufferViewIndex.
                          case new_cell s1
                                 (Object [(''buffer'', VNum 0),
                                          (''byteOffset'', VNum (int (snd acc))),
                                          (''byteLength'', VNum (int (length imageData)))]) of
                            (view, s2) \<Rightarrow>
                              attempt (push s2 bufferViews view) (\<lambda>s3.
                              attempt (set_property (delete_property s3 img ''uri'') img
                                         ''bufferView'' (VNum (int bufferViewIndex))) (\<lambda>s4.
                              attempt (set_property s4 img ''mimeType''
                                         (VStr (getMimeType (extname env uri)))) (\<lambda>s5.
                                Some (Inr (grow imageData acc, s5)))))))
              = Some (Inr (acc', s'))"
          by (rule attemptE)
        from r3 obtain bufferViews where vs: "views = Some bufferViews"
          by (cases views) simp_all
        from g0 vs have g: "get_property s1 m ''bufferViews'' = Inr (Some bufferViews)" by simp
        from r3 vs have "is_array s1 bufferViews" by (auto split: if_splits)
        with r3 vs have "attempt (loop_length s1 bufferViews) (\<lambda>bufferViewIndex.
                          case new_cell s1
                                 (Object [(''buffer'', VNum 0),
                                          (''byteOffset'', VNum (int (snd acc))),
                                          (''byteLength'', VNum (int (length imageData)))]) of
                            (view, s2) \<Rightarrow>
                              attempt (push s2 bufferViews view) (\<lambda>s3.
                              attempt (set_property (delete_property s3 img ''uri'') img
                                         ''bufferView'' (VNum (int bufferViewIndex))) (\<lambda>s4.
                              attempt (set_property s4 img ''mimeType''
                                         (VStr (getMimeType (extname env uri)))) (\<lambda>s5.
                                Some (Inr (grow imageData acc, s5))))))
               = Some (Inr (acc', s'))" by simp
        then obtain idx where "loop_length s1 bufferViews = Inr idx"
          and r2: "(case new_cell s1
                                 (Object [(''buffer'', VNum 0),
                                          (''byteOffset'', VNum (int (snd acc))),
                                          (''byteLength'', VNum (int (length imageData)))]) of
                            (view, s2) \<Rightarrow>
                              attempt (push s2 bufferViews view) (\<lambda>s3.
                              attempt (set_property (delete_property s3 img ''uri'') img
                                         ''bufferView'' (VNum (int idx))) (\<lambda>s4.
                              attempt (set_property s4 img ''mimeType''
                                         (VStr (getMimeType (extname env uri)))) (\<lambda>s5.
                                Some (Inr (grow imageData acc, s5))))))
               = Some (Inr (acc', s'))"
          by (rule attemptE)
        have 1: "separate n s0 s1"
        proof (cases "truthy_val_opt views0")
          case True
          with e1 assms(1) show ?thesis by simp
        next
          case False
          obtain views' sa where c: "new_cell s (Array []) = (views', sa)" by force
          from new_cell_separate [OF assms(1) _ c] have a: "separate n s0 sa" "fresh n views'"
            by simp_all
          from e1 False c have "set_property sa m ''bufferViews'' views' = Inr s1"
            by simp
          from set_property_separate [OF a(1) assms(2) a(2) this] show ?thesis .
        qed
        from 1 assms(2) g have fv: "fresh n bufferViews" by (rule get_property_fresh)
        obtain view s2 where c2: "new_cell s1
                                 (Object [(''buffer'', VNum 0),
                                          (''byteOffset'', VNum (int (snd acc))),
                                          (''byteLength'', VNum (int (length imageData)))])
            = (view, s2)" by force
        from new_cell_separate [OF 1 _ c2] have 2: "separate n s0 s2" "fresh n view" by simp_all
        from r2 c2 have "attempt (push s2 bufferViews view) (\<lambda>s3.
                              attempt (set_property (delete_property s3 img ''uri'') img
                                         ''bufferView'' (VNum (int idx))) (\<lambda>s4.
                              attempt (set_property s4 img ''mimeType''
                                         (VStr (getMimeType (extname env uri)))) (\<lambda>s5.
                                Some (Inr (grow imageData acc, s5)))))
               = Some (Inr (acc', s'))" by simp
        then obtain s3 where
          p: "push s2 bufferViews view = Inr s3"
          and q3: "attempt (set_property (delete_property s3 img ''uri'') img
                                         ''bufferView'' (VNum (int idx))) (\<lambda>s4.
                              attempt (set_property s4 img ''mimeType''
                                         (VStr (getMimeType (extname env uri)))) (\<lambda>s5.
                                Some (Inr (grow imageData acc, s5))))
               = Some (Inr (acc', s'))"
          by (rule attemptE)
        from q3 obtain s4 where
          a4: "set_property (delete_property s3 img ''uri'') img ''bufferView'' (VNum (int idx))
                = Inr s4"
          and q4: "attempt (set_property s4 img ''mimeType''
                                         (VStr (getMimeType (extname env uri)))) (\<lambda>s5.
                                Some (Inr (grow imageData acc, s5)))
               = Some (Inr (acc', s'))"
          by (rule attemptE)
        from q4 have a5: "set_property s4 img ''mimeType'' (VStr (getMimeType (extname env uri)))
            = Inr s'"
          by (auto simp: attempt_def split: sum.splits)
        from push_separate [OF 2(1) fv 2(2) p] have 3: "separate n s0 s3" .
        then have "separate n s0 (delete_property s3 img ''uri'')"
          using fi by (rule delete_property_separate)
        from set_property_separate [OF this fi _ a4] have 4: "separate n s0 s4" by simp
        from set_property_separate [OF 4 fi _ a5] show ?thesis by simp
      qed
    qed
  qed
qed

lemma images_pass_separate:
  assumes "separate n s0 s" "fresh n m" "images_pass env m acc s = Some (Inr (acc', s'))"
  shows "separate n s0 s'"
proof -
  from assms(3) obtain images where
    "get_property s m ''images'' = Inr images"
    and r: "(if \<not> truthy_val_opt images then Some (Inr (acc, s))
       else for_index (\<lambda>s. property_length s m ''images'')
              (images_step env m) 0 acc s) = Some (Inr (acc', s'))"
    unfolding images_pass_def by (rule attemptE)
  show ?thesis
  proof (cases "truthy_val_opt images")
    case False
    with r assms(1) show ?thesis by simp
  next
    case True
    with r have l: "for_index (\<lambda>s. property_length s m ''images'')
              (images_step env m) 0 acc s = Some (Inr (acc', s'))" by simp
    show ?thesis
      by (rule for_index_invariant [OF l, of "separate n s0"])
        (auto intro: assms(1) images_step_separate [OF _ assms(2)])
  qed
qed

lemma final_size_separate:
  assumes "separate n s0 s" "fresh n m" "final_size m start s = Inr s'"
  shows "separate n s0 s'"
proof (cases "\<exists>buffers k buffer0. get_property s m ''buffers'' = Inr (Some buffers)
    \<and> truthy_val buffers \<and> loop_length s buffers = Inr k \<and> k > 0
    \<and> element s buffers 0 = Inr buffer0")
  case True
  then obtain buffers k buffer0 where g: "get_property s m ''buffers'' = Inr (Some buffers)"
    and t: "truthy_val buffers" and k: "loop_length s buffers = Inr k" "k > 0"
    and e: "element s buffers 0 = Inr buffer0"
    by blast
  from assms(1,2) g have "fresh n buffers" by (rule get_property_fresh)
  from element_fresh [OF assms(1) this e] have f: "fresh n buffer0" .
  from assms(3) g t k e have "set_property s buffer0 ''byteLength'' (VNum (int start)) = Inr s'"
    by (simp add: final_size_def)
  from set_property_separate [OF assms(1) f _ this] show ?thesis by simp
next
  case False
  with assms(3) have "s' = s"
    by (auto simp: final_size_def split: sum.splits option.splits if_splits)
  with assms(1) show ?thesis by simp
qed

lemma createGLB_store_separate:
  assumes "separate n s0 s" "createGLB_store env v b s = Inr (glb, s')"
  shows "separate n s0 s'"
proof -
  from assms(2) obtain tx where t: "JSON_tree s v = Inr tx"
    by (auto simp: createGLB_store_def split: sum.splits)
  obtain copy s1 where p: "JSON_parse tx s = (copy, s1)" by force
  from JSON_parse_separate(1) [OF assms(1) p] have 1: "separate n s0 s1" "fresh n copy"
    by simp_all
  from assms(2) t p obtain asset where
    e: "(if \<not> truthy_val_opt asset
         then (case new_cell s1 (Object [(''version'', VStr ''2.0'')]) of
                 (a, s2) \<Rightarrow> set_property s2 copy ''asset'' a)
         else Inr s1) = Inr s'"
    by (auto simp: createGLB_store_def split: sum.splits)
  show ?thesis
  proof (cases "truthy_val_opt asset")
    case True
    with e 1 show ?thesis by simp
  next
    case False
    obtain a s2 where c: "new_cell s1 (Object [(''version'', VStr ''2.0'')]) = (a, s2)" by force
    from new_cell_separate [OF 1(1) _ c] have 2: "separate n s0 s2" "fresh n a" by simp_all
    from e False c have "set_property s2 copy ''asset'' a = Inr s'" by simp
    from set_property_separate [OF 2(1) 1(2) 2(2) this] show ?thesis .
  qed
qed

lemma convert_store_separate:
  assumes "convert_store env gltfData s = Some (Inr (glb, s'))"
  shows "separate (length s) s s'"
proof -
  from assms obtain tx where t: "JSON_tree s gltfData = Inr tx"
    and r: "(case JSON_parse tx s of
         (m, s0) \<Rightarrow>
           after (buffers_pass env m ([], 0) s0) (\<lambda>(acc1, s1).
           after (images_pass env m acc1 s1) (\<lambda>(acc2, s2).
           attempt (final_size m (snd acc2) s2) (\<lambda>s3.
           attempt (createGLB_store env m (Buffer_concat (fst acc2)) s3) (\<lambda>r.
             Some (Inr r)))))) = Some (Inr (glb, s'))"
    unfolding convert_store_def by (rule attemptE)
  obtain m sa where p: "JSON_parse tx s = (m, sa)" by force
  from JSON_parse_separate(1) [OF separate_refl p]
  have 0: "separate (length s) s sa" "fresh (length s) m" by simp_all
  from r p have "after (buffers_pass env m ([], 0) sa) (\<lambda>(acc1, s1).
           after (images_pass env m acc1 s1) (\<lambda>(acc2, s2).
           attempt (final_size m (snd acc2) s2) (\<lambda>s3.
           attempt (createGLB_store env m (Buffer_concat (fst acc2)) s3) (\<lambda>r.
             Some (Inr r))))) = Some (Inr (glb, s'))" by simp
  then obtain x1 where b1: "buffers_pass env m ([], 0) sa = Some (Inr x1)"
    and r1: "(case x1 of (acc1, s1) \<Rightarrow>
           after (images_pass env m acc1 s1) (\<lambda>(acc2, s2).
           attempt (final_size m (snd acc2) s2) (\<lambda>s3.
           attempt (createGLB_store env m (Buffer_concat (fst acc2)) s3) (\<lambda>r.
             Some (Inr r))))) = Some (Inr (glb, s'))"
    by (rule afterE)
  obtain acc1 s1 where x1: "x1 = (acc1, s1)" by (cases x1)
  from r1 x1 have "after (images_pass env m acc1 s1) (\<lambda>(acc2, s2).
           attempt (final_size m (snd acc2) s2) (\<lambda>s3.
           attempt (createGLB_store env m (Buffer_concat (fst acc2)) s3) (\<lambda>r.
             Some (Inr r)))) = Some (Inr (glb, s'))" by simp
  then obtain x2 where i2: "images_pass env m acc1 s1 = Some (Inr x2)"
    and r2: "(case x2 of (acc2, s2) \<Rightarrow>
           attempt (final_size m (snd acc2) s2) (\<lambda>s3.
           attempt (createGLB_store env m (Buffer_concat (fst acc2)) s3) (\<lambda>r.
             Some (Inr r)))) = Some (Inr (glb, s'))"
    by (rule afterE)
  obtain acc2 s2 where x2: "x2 = (acc2, s2)" by (cases x2)
  from r2 x2 have "attempt (final_size m (snd acc2) s2) (\<lambda>s3.
           attempt (createGLB_store env m (Buffer_concat (fst acc2)) s3) (\<lambda>r.
             Some (Inr r))) = Some (Inr (glb, s'))" by simp
  then obtain s3 where f: "final_size m (snd acc2) s2 = Inr s3"
    and c3: "attempt (createGLB_store env m (Buffer_concat (fst acc2)) s3) (\<lambda>r. Some (Inr r))
         = Some (Inr (glb, s'))"
    by (rule attemptE)
  from c3 have c: "createGLB_store env m (Buffer_concat (fst acc2)) s3 = Inr (glb, s')"
    by (auto simp: attempt_def split: sum.splits)
  from b1 x1 have b: "buffers_pass env m ([], 0) sa = Some (Inr (acc1, s1))" by simp
  from i2 x2 have i: "images_pass env m acc1 s1 = Some (Inr (acc2, s2))" by simp
  from 0 b have "separate (length s) s s1" by (rule buffers_pass_separate)
  from this 0(2) i have "separate (length s) s s2" by (rule images_pass_separate)
  from this 0(2) f have "separate (length s) s s3" by (rule final_size_separate)
  then show ?thesis using c by (rule createGLB_store_separate)
qed

lemma map_err_agree:
  "map_err f xs = Inr ys \<Longrightarrow> (\<And>x y. x \<in> set xs \<Longrightarrow> f x = Inr y \<Longrightarrow> g x = Inr y)
     \<Longrightarrow> map_err g xs = Inr ys"
proof (induction xs arbitrary: ys)
  case Nil
  then show ?case by simp
next
  case (Cons x xs)
  from Cons.prems(1) obtain y ys' where f: "f x = Inr y" and m: "map_err f xs = Inr ys'"
    and ys: "ys = y # ys'"
    by (auto split: sum.splits)
  from Cons.prems(2) [OF _ f] have "g x = Inr y" by simp
  moreover from Cons.IH [OF m] Cons.prems(2) have "map_err g xs = Inr ys'" by simp
  ultimately show ?case by (simp add: ys)
qed

lemma tree_primitive:
  assumes "\<And>a. v \<noteq> VRef a"
  shows "tree d s v = tree d' s' v"
proof (cases v)
  case (VRef a)
  with assms show ?thesis by blast
qed (cases d; cases d'; simp)+

lemma tree_stable:
  "tree d s v = Inr j \<Longrightarrow> d \<le> d' \<Longrightarrow> take (length s) s' = s \<Longrightarrow> tree d' s' v = Inr j"
proof (induction d arbitrary: d' v j)
  case 0
  then have "\<And>a. v \<noteq> VRef a" by auto
  from tree_primitive [OF this, of d' s' 0 s] 0(1) show ?case by simp
next
  case (Suc d)
  show ?case
  proof (cases "\<exists>a. v = VRef a")
    case False
    then have "\<And>a. v \<noteq> VRef a" by auto
    from tree_primitive [OF this, of d' s' "Suc d" s] Suc.prems(1) show ?thesis by simp
  next
    case True
    then obtain a where v: "v = VRef a" by blast
    from Suc.prems(2) obtain e where d': "d' = Suc e" and le: "d \<le> e" by (cases d') auto
    from Suc.prems(1) v have a: "a < length s" by (auto split: if_splits)
    have "length (take (length s) s') \<le> length s'" by simp
    with Suc.prems(3) have l: "length s \<le> length s'" by simp
    from Suc.prems(3) a have n: "s' ! a = s ! a" by (metis nth_take)
    show ?thesis
    proof (cases "s ! a")
      case (Array vs)
      with Suc.prems(1) v a obtain xs where m: "map_err (tree d s) vs = Inr xs" and j: "j = JArr xs"
        by (auto split: sum.splits)
      from m have "map_err (tree e s') vs = Inr xs"
        by (rule map_err_agree) (rule Suc.IH [OF _ le Suc.prems(3)])
      with v d' a l n Array j show ?thesis by simp
    next
      case (Object ps)
      let ?f = "\<lambda>d s. \<lambda>(k, x). case tree d s x of Inl e \<Rightarrow> Inl e | Inr y \<Rightarrow> Inr (k, y)"
      from Object Suc.prems(1) v a obtain kvs where m: "map_err (?f d s) ps = Inr kvs"
        and j: "j = JObj kvs"
        by (auto split: sum.splits)
      from m have "map_err (?f e s') ps = Inr kvs"
      proof (rule map_err_agree)
        fix p y assume "p \<in> set ps" and p: "?f d s p = Inr y"
        obtain k x where kx: "p = (k, x)" by (cases p)
        with p obtain z where "tree d s x = Inr z" and y: "y = (k, z)"
          by (auto split: sum.splits)
        from Suc.IH [OF this(1) le Suc.prems(3)] show "?f e s' p = Inr y"
          by (simp add: kx y)
      qed
      with v d' a l n Object j show ?thesis by simp
    qed
  qed
qed

lemma separate_take: "separate (length s) s s' \<Longrightarrow> take (length s) s' = s"
  by (simp add: separate_def)

text \<open>
  Claim C9. Whenever the conversion returns, whatever the store and the parsed document
  \<open>gltfData\<close> in it: every cell that the store had before the conversion is in the store
  after it, at its address and with its content, and \<^verbatim>\<open>JSON.stringify(gltfData)\<close> gives
  after the conversion the text it gave before. All the cells that the conversion writes
  are cells it has created itself, by \<^verbatim>\<open>JSON.parse\<close> or by an object or array literal.
\<close>

theorem original_unchanged:
  assumes "convert_store env gltfData s = Some (Inr (glb, s'))"
  shows "take (length s) s' = s
       \<and> (\<exists>tx. JSON_tree s gltfData = Inr tx \<and> JSON_tree s' gltfData = Inr tx)"
proof -
  from convert_store_separate [OF assms] have sep: "separate (length s) s s'" .
  then have t: "take (length s) s' = s" by (rule separate_take)
  from sep have l: "length s \<le> length s'" by (rule separate_length)
  from assms obtain tx where tx: "JSON_tree s gltfData = Inr tx"
    unfolding convert_store_def by (rule attemptE)
  then have "tree (length s) s gltfData = Inr tx" by (simp add: JSON_tree_def)
  from tree_stable [OF this l t] have "JSON_tree s' gltfData = Inr tx"
    by (simp add: JSON_tree_def)
  with t tx show ?thesis by blast
qed

lemma example_parse: "JSON_parse (JObj example_gltf) [] = (VRef 6, example_store)"
  by (simp add: example_gltf_def example_store_def new_cell_def)

lemmas store_eval =
  get_property_def set_property_def delete_property_def loop_length_def property_length_def
  element_def property_element_def is_array_def push_def attempt_def after_def uri_guard_def
  retarget_def retarget_views_def grow_def new_cell_def exact_def padding4_def
  for_index.simps

lemma example_copy:
  "JSON_tree example_store (VRef 6) = Inr (JObj example_gltf)"
  by (simp add: JSON_tree_def example_store_def example_gltf_def)

lemma example_parse_copy:
  "JSON_parse (JObj example_gltf) example_store =
     (VRef 13,
      example_store @
      [Object [(''uri'', VStr ''a.bin''), (''byteLength'', VNum 10)],
       Array [VRef 7],
       Object [(''buffer'', VNum 0), (''byteLength'', VNum 10)],
       Array [VRef 9],
       Object [(''uri'', VStr ''i.png'')],
       Array [VRef 11],
       Object [(''buffers'', VRef 8), (''bufferViews'', VRef 10), (''images'', VRef 12)]])"
  by (simp add: example_gltf_def example_store_def new_cell_def)

lemma example_buffers_pass:
  "buffers_pass example_node (VRef 13) ([], 0)
     (example_store @
      [Object [(''uri'', VStr ''a.bin''), (''byteLength'', VNum 10)],
       Array [VRef 7],
       Object [(''buffer'', VNum 0), (''byteLength'', VNum 10)],
       Array [VRef 9],
       Object [(''uri'', VStr ''i.png'')],
       Array [VRef 11],
       Object [(''buffers'', VRef 8), (''bufferViews'', VRef 10), (''images'', VRef 12)]])
   = Some (Inr (([FileData example_bin, Padding [0, 0]], 12),
      example_store @
      [Object [(''byteLength'', VNum 10)],
       Array [VRef 7],
       Object [(''buffer'', VNum 0), (''byteLength'', VNum 10), (''byteOffset'', VNum 0)],
       Array [VRef 9],
       Object [(''uri'', VStr ''i.png'')],
       Array [VRef 11],
       Object [(''buffers'', VRef 15), (''bufferViews'', VRef 10), (''images'', VRef 12)],
       Object [(''byteLength'', VNum 12)],
       Array [VRef 14]]))"
  by (simp add: buffers_pass_def buffers_step_def store_eval example_store_def example_node_def
      node_with_def replicate_small)

lemma example_images_pass:
  "images_pass example_node (VRef 13) ([FileData example_bin, Padding [0, 0]], 12)
     (example_store @
      [Object [(''byteLength'', VNum 10)],
       Array [VRef 7],
       Object [(''buffer'', VNum 0), (''byteLength'', VNum 10), (''byteOffset'', VNum 0)],
       Array [VRef 9],
       Object [(''uri'', VStr ''i.png'')],
       Array [VRef 11],
       Object [(''buffers'', VRef 15), (''bufferViews'', VRef 10), (''images'', VRef 12)],
       Object [(''byteLength'', VNum 12)],
       Array [VRef 14]])
   = Some (Inr ((example_chunks, 20),
      example_store @
      [Object [(''byteLength'', VNum 10)],
       Array [VRef 7],
       Object [(''buffer'', VNum 0), (''byteLength'', VNum 10), (''byteOffset'', VNum 0)],
       Array [VRef 9, VRef 16],
       Object [(''bufferView'', VNum 1), (''mimeType'', VStr ''image/png'')],
       Array [VRef 11],
       Object [(''buffers'', VRef 15), (''bufferViews'', VRef 10), (''images'', VRef 12)],
       Object [(''byteLength'', VNum 12)],
       Array [VRef 14],
       Object [(''buffer'', VNum 0), (''byteOffset'', VNum 12), (''byteLength'', VNum 7)]]))"
  by (simp add: images_pass_def images_step_def store_eval example_store_def example_node_def
      node_with_def replicate_small example_chunks_def getMimeType_def mimeTypes_def
      posix_extname_def to_lower_def)

lemma example_final_size:
  "final_size (VRef 13) 20
     (example_store @
      [Object [(''byteLength'', VNum 10)],
       Array [VRef 7],
       Object [(''buffer'', VNum 0), (''byteLength'', VNum 10), (''byteOffset'', VNum 0)],
       Array [VRef 9, VRef 16],
       Object [(''bufferView'', VNum 1), (''mimeType'', VStr ''image/png'')],
       Array [VRef 11],
       Object [(''buffers'', VRef 15), (''bufferViews'', VRef 10), (''images'', VRef 12)],
       Object [(''byteLength'', VNum 12)],
       Array [VRef 14],
       Object [(''buffer'', VNum 0), (''byteOffset'', VNum 12), (''byteLength'', VNum 7)]])
   = Inr example_patched_store"
  by (simp add: final_size_def store_eval example_store_def example_patched_store_def)

lemma example_patched_tree:
  "JSON_tree example_patched_store (VRef 13) = Inr (JObj example_patched)"
  by (simp add: JSON_tree_def example_patched_store_def example_store_def example_patched_def)

lemma example_patched_parse:
  "JSON_parse (JObj example_patched) example_patched_store =
     (VRef 24,
      example_patched_store @
      [Object [(''byteLength'', VNum 20)],
       Array [VRef 17],
       Object [(''buffer'', VNum 0), (''byteLength'', VNum 10), (''byteOffset'', VNum 0)],
       Object [(''buffer'', VNum 0), (''byteOffset'', VNum 12), (''byteLength'', VNum 7)],
       Array [VRef 19, VRef 20],
       Object [(''bufferView'', VNum 1), (''mimeType'', VStr ''image/png'')],
       Array [VRef 22],
       Object [(''buffers'', VRef 18), (''bufferViews'', VRef 21), (''images'', VRef 23)]])"
  by (simp add: example_patched_store_def example_store_def example_patched_def new_cell_def)

lemma example_final_tree:
  "JSON_tree example_final_store (VRef 24) = Inr (JObj example_clean)"
  by (simp add: JSON_tree_def example_final_store_def example_patched_store_def
      example_store_def example_clean_def example_patched_def default_asset_def)

lemma glb_bytes_createGLB:
  "cleanGltf clean = Inr clean \<Longrightarrow> glb_bytes env clean b = createGLB env clean b"
  by (simp add: glb_bytes_def createGLB_def)

lemma example_createGLB_store:
  "createGLB_store example_node (VRef 13) (Buffer_concat example_chunks) example_patched_store
     = Inr (container example_node (JObj example_clean) (Buffer_concat example_chunks) 260,
            example_final_store)"
proof -
  have a: "set_property
      (example_patched_store @
        [Object [(''byteLength'', VNum 20)],
         Array [VRef 17],
         Object [(''buffer'', VNum 0), (''byteLength'', VNum 10), (''byteOffset'', VNum 0)],
         Object [(''buffer'', VNum 0), (''byteOffset'', VNum 12), (''byteLength'', VNum 7)],
         Array [VRef 19, VRef 20],
         Object [(''bufferView'', VNum 1), (''mimeType'', VStr ''image/png'')],
         Array [VRef 22],
         Object [(''buffers'', VRef 18), (''bufferViews'', VRef 21), (''images'', VRef 23)],
         Object [(''version'', VStr ''2.0'')]])
      (VRef 24) ''asset'' (VRef 25) = Inr example_final_store"
    by (simp add: set_property_def example_final_store_def example_patched_store_def
        example_store_def)
  have g: "get_property
      (example_patched_store @
        [Object [(''byteLength'', VNum 20)],
         Array [VRef 17],
         Object [(''buffer'', VNum 0), (''byteLength'', VNum 10), (''byteOffset'', VNum 0)],
         Object [(''buffer'', VNum 0), (''byteOffset'', VNum 12), (''byteLength'', VNum 7)],
         Array [VRef 19, VRef 20],
         Object [(''bufferView'', VNum 1), (''mimeType'', VStr ''image/png'')],
         Array [VRef 22],
         Object [(''buffers'', VRef 18), (''bufferViews'', VRef 21), (''images'', VRef 23)]])
      (VRef 24) ''asset'' = Inr None"
    by (simp add: get_property_def example_patched_store_def example_store_def)
  have n: "new_cell
      (example_patched_store @
        [Object [(''byteLength'', VNum 20)],
         Array [VRef 17],
         Object [(''buffer'', VNum 0), (''byteLength'', VNum 10), (''byteOffset'', VNum 0)],
         Object [(''buffer'', VNum 0), (''byteOffset'', VNum 12), (''byteLength'', VNum 7)],
         Array [VRef 19, VRef 20],
         Object [(''bufferView'', VNum 1), (''mimeType'', VStr ''image/png'')],
         Array [VRef 22],
         Object [(''buffers'', VRef 18), (''bufferViews'', VRef 21), (''images'', VRef 23)]])
      (Object [(''version'', VStr ''2.0'')])
     = (VRef 25,
        example_patched_store @
        [Object [(''byteLength'', VNum 20)],
         Array [VRef 17],
         Object [(''buffer'', VNum 0), (''byteLength'', VNum 10), (''byteOffset'', VNum 0)],
         Object [(''buffer'', VNum 0), (''byteOffset'', VNum 12), (''byteLength'', VNum 7)],
         Array [VRef 19, VRef 20],
         Object [(''bufferView'', VNum 1), (''mimeType'', VStr ''image/png'')],
         Array [VRef 22],
         Object [(''buffers'', VRef 18), (''bufferViews'', VRef 21), (''images'', VRef 23)],
         Object [(''version'', VStr ''2.0'')]])"
    by (simp add: new_cell_def example_patched_store_def example_store_def)
  have c: "cleanGltf (JObj example_clean) = Inr (JObj example_clean)"
    by (simp add: cleanGltf_def example_clean_def example_patched_def default_asset_def)
  have "container_length example_node (JObj example_clean) (Buffer_concat example_chunks) = 260"
    using example_region
    by (auto simp: container_length_def json_payload_def bin_payload_def example_stringify_length
        padding4_def)
  then have b: "glb_bytes example_node (JObj example_clean) (Buffer_concat example_chunks)
      = Inr (container example_node (JObj example_clean) (Buffer_concat example_chunks) 260)"
    by (simp add: glb_bytes_createGLB [OF c] createGLB_eq [OF c])
  show ?thesis
    by (simp add: createGLB_store_def example_patched_tree example_patched_parse g n a
        example_final_tree b del: JSON_parse.simps)
qed

lemma example_convert_store:
  "convert_store example_node (VRef 6) example_store
     = Some (Inr (container example_node (JObj example_clean) (Buffer_concat example_chunks) 260,
                  example_final_store))"
  by (simp add: convert_store_def attempt_def after_def example_copy example_parse_copy
      example_buffers_pass example_images_pass example_final_size example_createGLB_store
      del: JSON_parse.simps)

theorem original_unchanged_witness:
  "JSON_parse (JObj example_gltf) [] = (VRef 6, example_store)
   \<and> convert_store example_node (VRef 6) example_store
       = Some (Inr (container example_node (JObj example_clean) (Buffer_concat example_chunks) 260,
                    example_final_store))
   \<and> convertGLTFToGLB example_node (JObj example_gltf)
       = Inr (container example_node (JObj example_clean) (Buffer_concat example_chunks) 260)
   \<and> take 7 example_final_store = example_store
   \<and> JSON_tree example_store (VRef 6) = Inr (JObj example_gltf)
   \<and> JSON_tree example_final_store (VRef 6) = Inr (JObj example_gltf)
   \<and> JSON_tree example_final_store (VRef 13) = Inr (JObj example_patched)"
proof -
  have l: "length example_store = 7" by (simp add: example_store_def)
  from original_unchanged [OF example_convert_store] example_copy
  have "take 7 example_final_store = example_store"
    and "JSON_tree example_final_store (VRef 6) = Inr (JObj example_gltf)"
    by (simp_all add: l)
  moreover have "JSON_tree example_final_store (VRef 13) = Inr (JObj example_patched)"
    by (simp add: JSON_tree_def example_final_store_def example_patched_store_def
        example_store_def example_patched_def)
  ultimately show ?thesis
    using example_parse example_convert_store example_convert example_copy by simp
qed

end
